theory Spec2Isabelle
  imports Complex_Main "HOL-Library.Multiset" "HOL-Library.Sublist"
begin

section \<open>Strings and keys\<close>

text \<open>
  JavaScript strings are sequences of UTF-16 code units; they are modelled as
  \<^typ>\<open>string\<close>, one \<^typ>\<open>char\<close> per code unit.  \<open>substring(0, n)\<close>
  is \<^term>\<open>take n\<close>.
\<close>

text \<open>\<open>s.split(c)\<close> for a one-character separator: never the empty list.\<close>

fun split_sep :: "char \<Rightarrow> string \<Rightarrow> string list" where
  "split_sep c [] = [[]]"
| "split_sep c (x # xs) =
     (if x = c then [] # split_sep c xs
      else (case split_sep c xs of
              [] \<Rightarrow> [[x]]
            | w # ws \<Rightarrow> (x # w) # ws))"

text \<open>\<open>xs[i]\<close> on an array: \<open>undefined\<close> (here \<open>None\<close>) out of range.\<close>

definition at_index :: "'a list \<Rightarrow> nat \<Rightarrow> 'a option" where
  "at_index xs i = (if i < length xs then Some (xs ! i) else None)"

text \<open>A value inside a template literal: \<open>undefined\<close> prints as the word.\<close>

definition template_str :: "string option \<Rightarrow> string" where
  "template_str v = (case v of None \<Rightarrow> ''undefined'' | Some s \<Rightarrow> s)"

text \<open>Decimal rendering of a number, as \<open>`${index + 1}`\<close> produces it.\<close>

fun string_of_nat :: "nat \<Rightarrow> string" where
  "string_of_nat n =
     (if n < 10 then [''0123456789'' ! n]
      else string_of_nat (n div 10) @ [''0123456789'' ! (n mod 10)])"

declare string_of_nat.simps [simp del]

section \<open>Comparators and \<open>Array.prototype.sort\<close>\<close>

type_synonym comparator = "string \<Rightarrow> string \<Rightarrow> int"

type_synonym entries = "(string \<times> string) list"

text \<open>
  \<open>Array.prototype.sort(comparefn)\<close> is a stable sort: with a consistent comparator
  the result is the one permutation that is ordered by the comparator and keeps
  entries that compare equal in their previous order.  Insertion from the right
  computes that permutation; the callback of \<open>createAlbumPage\<close> compares the keys only.
\<close>

fun insert_entry :: "comparator \<Rightarrow> string \<times> string \<Rightarrow> entries \<Rightarrow> entries" where
  "insert_entry cmp e [] = [e]"
| "insert_entry cmp e (y # ys) =
     (if cmp (fst e) (fst y) \<le> 0 then e # y # ys else y # insert_entry cmp e ys)"

definition sort_entries :: "comparator \<Rightarrow> entries \<Rightarrow> entries" where
  "sort_entries cmp es = foldr (insert_entry cmp) es []"

text \<open>
  What the language requires of \<open>localeCompare\<close>: a consistent comparator, that is
  a total preorder on strings read off the sign of the result.
\<close>

definition consistent_comparator :: "comparator \<Rightarrow> bool" where
  "consistent_comparator cmp \<longleftrightarrow>
     (\<forall>a b. cmp a b \<le> 0 \<or> cmp b a \<le> 0) \<and>
     (\<forall>a b c. cmp a b \<le> 0 \<longrightarrow> cmp b c \<le> 0 \<longrightarrow> cmp a c \<le> 0)"

text \<open>Ordinary lexicographic order on strings, by code unit (the \<open><\<close> of the language).\<close>

fun lexicographic_less :: "string \<Rightarrow> string \<Rightarrow> bool" where
  "lexicographic_less [] [] = False"
| "lexicographic_less [] (y # ys) = True"
| "lexicographic_less (x # xs) [] = False"
| "lexicographic_less (x # xs) (y # ys) =
     ((of_char x :: nat) < of_char y \<or> (x = y \<and> lexicographic_less xs ys))"

text \<open>
  \<open>String.prototype.localeCompare\<close> is supplied by the host, not by this
  repository.  In a browser it is the collation of the user's locale.  The
  comparator below models the default (root) collation on keys made of ASCII
  letters, digits and the underscore: strings are compared first by their
  primary weights (underscore before digits before letters, letters without regard
  to case), and only if those agree by case, lower case first.  Code units
  outside that alphabet are given weights past the letters, in code-unit order.
\<close>

definition primary_weight :: "char \<Rightarrow> nat" where
  "primary_weight c =
     (let n = (of_char c :: nat) in
      if n = 95 then 0
      else if 48 \<le> n \<and> n \<le> 57 then 1 + (n - 48)
      else if 97 \<le> n \<and> n \<le> 122 then 11 + (n - 97)
      else if 65 \<le> n \<and> n \<le> 90 then 11 + (n - 65)
      else 37 + n)"

definition case_weight :: "char \<Rightarrow> nat" where
  "case_weight c = (let n = (of_char c :: nat) in if 65 \<le> n \<and> n \<le> 90 then 1 else 0)"

fun weights_compare :: "nat list \<Rightarrow> nat list \<Rightarrow> int" where
  "weights_compare [] [] = 0"
| "weights_compare [] (y # ys) = - 1"
| "weights_compare (x # xs) [] = 1"
| "weights_compare (x # xs) (y # ys) =
     (if x < y then - 1 else if y < x then 1 else weights_compare xs ys)"

definition rootCollationCompare :: comparator where
  "rootCollationCompare a b =
     (let p = weights_compare (map primary_weight a) (map primary_weight b) in
      if p \<noteq> 0 then p
      else weights_compare (map case_weight a) (map case_weight b))"

section \<open>The drawing surface\<close>

text \<open>
  The 2D context is modelled as its drawing state, the stack of saved states and the
  list of paint operations issued so far, each operation recorded with the state it
  was issued under.  Pixels, blur and font rasterisation are left to the host's
  encoder.
\<close>

record ctx_state =
  fillStyle :: string
  font :: string
  textAlign :: string
  textBaseline :: string
  shadowColor :: string
  shadowBlur :: real
  shadowOffsetX :: real
  shadowOffsetY :: real

datatype 'img paint_op =
    FillRect ctx_state real real real real
  | DrawImage ctx_state 'img real real real real
  | FillText ctx_state string real real

record 'img canvas =
  width :: real
  height :: real
  cstate :: ctx_state
  saved :: "ctx_state list"
  painted :: "'img paint_op list"

text \<open>The state of a freshly created context.\<close>

definition default_state :: ctx_state where
  "default_state =
     \<lparr>fillStyle = ''#000000'', font = ''10px sans-serif'', textAlign = ''start'',
      textBaseline = ''alphabetic'', shadowColor = ''rgba(0, 0, 0, 0)'',
      shadowBlur = 0, shadowOffsetX = 0, shadowOffsetY = 0\<rparr>"

definition createElement_canvas :: "real \<Rightarrow> real \<Rightarrow> 'img canvas" where
  "createElement_canvas w h =
     \<lparr>width = w, height = h, cstate = default_state, saved = [], painted = []\<rparr>"

definition fillRect :: "real \<Rightarrow> real \<Rightarrow> real \<Rightarrow> real \<Rightarrow> 'img canvas \<Rightarrow> 'img canvas" where
  "fillRect x y w h c = c\<lparr>painted := painted c @ [FillRect (cstate c) x y w h]\<rparr>"

definition drawImage ::
  "'img \<Rightarrow> real \<Rightarrow> real \<Rightarrow> real \<Rightarrow> real \<Rightarrow> 'img canvas \<Rightarrow> 'img canvas" where
  "drawImage img x y w h c = c\<lparr>painted := painted c @ [DrawImage (cstate c) img x y w h]\<rparr>"

definition fillText :: "string \<Rightarrow> real \<Rightarrow> real \<Rightarrow> 'img canvas \<Rightarrow> 'img canvas" where
  "fillText s x y c = c\<lparr>painted := painted c @ [FillText (cstate c) s x y]\<rparr>"

definition save :: "'img canvas \<Rightarrow> 'img canvas" where
  "save c = c\<lparr>saved := cstate c # saved c\<rparr>"

definition restore :: "'img canvas \<Rightarrow> 'img canvas" where
  "restore c = (case saved c of [] \<Rightarrow> c | s # ss \<Rightarrow> c\<lparr>cstate := s, saved := ss\<rparr>)"

section \<open>The host and the image loader\<close>

datatype js_error = Error string

text \<open>
  What the browser decides: the collation behind \<open>localeCompare\<close>, whether
  \<open>getContext('2d')\<close> yields a context, whether the image behind a source decodes
  (\<open>onload\<close>) or not (\<open>onerror\<close>), the tick at which the load issued as number \<open>i\<close>
  settles, and the encoder behind \<open>toDataURL\<close>.  Every load settles.  The encoder
  does not throw: the images are requested with \<open>crossOrigin = 'anonymous'\<close>, so
  one that loads does not taint the canvas.
\<close>

record 'img host =
  localeCompare :: comparator
  getContext2d :: bool
  decodes :: "string \<Rightarrow> 'img option"
  settles_at :: "nat \<Rightarrow> nat"
  toDataURL :: "'img canvas \<Rightarrow> string \<Rightarrow> real \<Rightarrow> string"

text \<open>A settled promise: the tick at which it settled, and its rejection or value.\<close>

type_synonym 'a promise = "nat \<times> (js_error + 'a)"

definition load_error_message :: "string \<Rightarrow> string" where
  "load_error_message src = ''Failed to load image: '' @ take 50 src @ ''...''"

definition loadImage :: "'img host \<Rightarrow> nat \<Rightarrow> string \<Rightarrow> 'img promise" where
  "loadImage h i src =
     (settles_at h i,
      case decodes h src of
        Some img \<Rightarrow> Inr img
      | None \<Rightarrow> Inl (Error (load_error_message src)))"

text \<open>
  \<open>Promise.all\<close>: rejected with the reason of the rejection that is observed first
  (among rejections of the same tick, the one issued first), fulfilled with the
  values in the order of the array if there is no rejection.
\<close>

fun first_rejection :: "'a promise list \<Rightarrow> (nat \<times> js_error) option" where
  "first_rejection [] = None"
| "first_rejection ((t, Inr v) # ps) = first_rejection ps"
| "first_rejection ((t, Inl e) # ps) =
     (case first_rejection ps of
        None \<Rightarrow> Some (t, e)
      | Some (t', e') \<Rightarrow> if t' < t then Some (t', e') else Some (t, e))"

fun fulfilled_values :: "'a promise list \<Rightarrow> 'a list" where
  "fulfilled_values [] = []"
| "fulfilled_values ((t, Inr v) # ps) = v # fulfilled_values ps"
| "fulfilled_values ((t, Inl e) # ps) = fulfilled_values ps"

definition Promise_all :: "'a promise list \<Rightarrow> js_error + 'a list" where
  "Promise_all ps =
     (case first_rejection ps of
        Some (t, e) \<Rightarrow> Inl e
      | None \<Rightarrow> Inr (fulfilled_values ps))"

section \<open>Objects that are written to\<close>

text \<open>
  The argument of \<open>createAlbumPage\<close> is a reference to an object, and \<open>sort\<close> works in
  place, so the objects live in a store: a reference is an index into it.  A record
  of string properties and an array of \<open>[key, value]\<close> pairs are both held as the list
  of their entries, a record in the order in which \<open>Object.entries\<close> enumerates it.
  A reference that the program holds is live: it is below the length of the store.
\<close>

type_synonym store = "entries list"

text \<open>\<open>Object.entries(o)\<close> allocates a new array holding the entries of \<open>o\<close>.\<close>

definition Object_entries :: "store \<Rightarrow> nat \<Rightarrow> nat \<times> store" where
  "Object_entries st r = (length st, st @ [st ! r])"

text \<open>\<open>a.sort(comparefn)\<close> overwrites the array behind \<open>a\<close>.\<close>

definition Array_sort :: "comparator \<Rightarrow> store \<Rightarrow> nat \<Rightarrow> store" where
  "Array_sort cmp st a = st[a := sort_entries cmp (st ! a)]"

section \<open>\<open>createAlbumPage\<close> (src/lib/albumUtils.ts)\<close>

definition canvasWidth :: real where "canvasWidth = 3200"
definition canvasHeight :: real where "canvasHeight = 1800"
definition padding :: real where "padding = 100"
definition grid_cols :: nat where "grid_cols = 4"
definition grid_rows :: nat where "grid_rows = 2"
definition totalContentWidth :: real where "totalContentWidth = canvasWidth - padding * 2"
definition totalContentHeight :: real where "totalContentHeight = canvasHeight - padding * 2"
definition cellWidth :: real where "cellWidth = totalContentWidth / real grid_cols"
definition cellHeight :: real where "cellHeight = totalContentHeight / real grid_rows"
definition imagePadding :: real where "imagePadding = 30"
definition imageWidth :: real where "imageWidth = cellWidth - imagePadding * 2"
definition imageHeight :: real where "imageHeight = imageWidth"

text \<open>The positions computed in the body of the \<open>forEach\<close> callback, by index.\<close>

definition row :: "nat \<Rightarrow> int" where "row index = \<lfloor>real index / real grid_cols\<rfloor>"
definition col :: "nat \<Rightarrow> nat" where "col index = index mod grid_cols"
definition cellX :: "nat \<Rightarrow> real" where "cellX index = padding + real (col index) * cellWidth"
definition cellY :: "nat \<Rightarrow> real" where "cellY index = padding + real_of_int (row index) * cellHeight"
definition imgX :: "nat \<Rightarrow> real" where "imgX index = cellX index + (cellWidth - imageWidth) / 2"
definition imgY :: "nat \<Rightarrow> real" where
  "imgY index = cellY index + (cellHeight - imageHeight - 60) / 2"
definition captionY :: "nat \<Rightarrow> real" where "captionY index = imgY index + imageHeight + 20"

record 'img styled_image =
  style :: string
  variation :: "string option"
  imgPromise :: "'img promise"

text \<open>The \<open>map\<close> callback of line 42; \<open>i\<close> counts the calls of \<open>loadImage\<close>.\<close>

definition imagesWithStyles :: "'img host \<Rightarrow> entries \<Rightarrow> 'img styled_image list" where
  "imagesWithStyles h sortedImageEntries =
     map (\<lambda>(i, (key, url)).
            \<lparr>style = split_sep CHR ''_'' key ! 0,
             variation = at_index (split_sep CHR ''_'' key) 1,
             imgPromise = loadImage h i url\<rparr>)
         (enumerate 0 sortedImageEntries)"

text \<open>
  The \<open>forEach\<close> callback of lines 63 to 97.  \<open>loadedImages\<close> has one image for each
  element of \<open>imagesWithStyles\<close>, so \<open>imagesWithStyles[index]\<close> is always defined.
\<close>

definition drawCell :: "'img styled_image list \<Rightarrow> 'img \<Rightarrow> nat \<Rightarrow> 'img canvas \<Rightarrow> 'img canvas" where
  "drawCell iws img index ctx =
     (let e = iws ! index;
          c1 = save ctx;
          c2 = c1\<lparr>cstate := (cstate c1)\<lparr>shadowColor := ''rgba(0, 0, 0, 0.1)'', shadowBlur := 25,
                                        shadowOffsetX := 0, shadowOffsetY := 8\<rparr>\<rparr>;
          c3 = drawImage img (imgX index) (imgY index) imageWidth imageHeight c2;
          c4 = c3\<lparr>cstate := (cstate c3)\<lparr>shadowColor := ''transparent''\<rparr>\<rparr>;
          c5 = c4\<lparr>cstate := (cstate c4)\<lparr>fillStyle := ''#333'',
                                        font := ''42px system-ui, sans-serif'',
                                        textAlign := ''center'', textBaseline := ''top''\<rparr>\<rparr>;
          c6 = fillText (style e @ '' (v'' @ template_str (variation e) @ '')'')
                 (cellX index + cellWidth / 2) (captionY index) c5
      in restore c6)"

definition drawCells :: "'img styled_image list \<Rightarrow> 'img list \<Rightarrow> 'img canvas \<Rightarrow> 'img canvas" where
  "drawCells iws loadedImages ctx =
     foldl (\<lambda>c (index, img). drawCell iws img index c) ctx (enumerate 0 loadedImages)"

definition drawBackground :: "'img canvas \<Rightarrow> 'img canvas" where
  "drawBackground ctx =
     fillRect 0 0 canvasWidth canvasHeight (ctx\<lparr>cstate := (cstate ctx)\<lparr>fillStyle := ''#f4f4f5''\<rparr>\<rparr>)"

definition drawFooter :: "'img canvas \<Rightarrow> 'img canvas" where
  "drawFooter ctx =
     fillText ''Generated with FaceFrame on Google AI Studio'' (canvasWidth / 2) (canvasHeight - 30)
       (ctx\<lparr>cstate := (cstate ctx)\<lparr>fillStyle := ''#999'', font := ''28px system-ui, sans-serif'',
                                    textAlign := ''center''\<rparr>\<rparr>)"

text \<open>
  The function returns its promise's outcome and the store it leaves behind.  The
  canvas is created 300 by 150 and then resized.
\<close>

definition createAlbumPage :: "'img host \<Rightarrow> store \<Rightarrow> nat \<Rightarrow> (js_error + string) \<times> store" where
  "createAlbumPage h st imageData =
     (let canvas = (createElement_canvas 300 150)\<lparr>width := canvasWidth, height := canvasHeight\<rparr>
      in if \<not> getContext2d h then (Inl (Error ''Could not get 2D canvas context''), st)
         else
           let ctx1 = drawBackground canvas;
               (arr, st1) = Object_entries st imageData;
               st2 = Array_sort (localeCompare h) st1 arr;
               sortedImageEntries = st2 ! arr;
               iws = imagesWithStyles h sortedImageEntries
           in case Promise_all (map imgPromise iws) of
                Inl e \<Rightarrow> (Inl e, st2)
              | Inr loadedImages \<Rightarrow>
                  (Inr (toDataURL h (drawFooter (drawCells iws loadedImages ctx1)) ''image/jpeg'' 0.95),
                   st2))"

section \<open>\<open>handleDownloadAll\<close> (src/App.tsx)\<close>

definition STYLES :: "string list" where
  "STYLES = [''Instagram'', ''LinkedIn'', ''WhatsApp'', ''Facebook'']"

text \<open>The statuses \<open>'pending'\<close>, \<open>'done'\<close> and \<open>'error'\<close>.\<close>

datatype ImageStatus = Pending | Done | Failed

record GeneratedImage =
  status :: ImageStatus
  url :: "string option"
  error :: "string option"

text \<open>
  The component state \<open>generatedImages\<close>, as \<open>Object.entries\<close> enumerates it: a style
  and its array of slots.
\<close>

type_synonym generated_images = "(string \<times> GeneratedImage list) list"

text \<open>The \<open>flatMap\<close> of lines 154 to 159: every slot with its key \<open>`${style}_${index + 1}`\<close>.\<close>

definition keyed_slots :: "generated_images \<Rightarrow> (string \<times> GeneratedImage) list" where
  "keyed_slots g =
     concat (map (\<lambda>(style, images).
                    map (\<lambda>(index, slot). (style @ ''_'' @ string_of_nat (index + 1), slot))
                        (enumerate 0 images))
                 g)"

text \<open>The \<open>filter\<close> of line 160: status \<open>done\<close> and a truthy (non-empty) URL.\<close>

definition slot_ready :: "GeneratedImage \<Rightarrow> bool" where
  "slot_ready slot \<longleftrightarrow>
     status slot = Done \<and> (case url slot of None \<Rightarrow> False | Some u \<Rightarrow> u \<noteq> [])"

text \<open>
  \<open>acc[key] = value\<close> on a plain object: an existing property keeps its place and
  takes the new value, a new property goes last.
\<close>

definition assign_property :: "entries \<Rightarrow> string \<Rightarrow> string \<Rightarrow> entries" where
  "assign_property acc key v =
     (if key \<in> fst ` set acc then map (\<lambda>(k, x). if k = key then (k, v) else (k, x)) acc
      else acc @ [(key, v)])"

text \<open>The \<open>reduce\<close> of lines 161 to 164; \<open>image.url!\<close> is defined after the filter.\<close>

definition collect_imageData :: "generated_images \<Rightarrow> entries" where
  "collect_imageData g =
     foldl (\<lambda>acc (key, slot). assign_property acc key (the (url slot))) []
       (filter (\<lambda>(key, slot). slot_ready slot) (keyed_slots g))"

text \<open>What the handler does to the outside, in order.\<close>

datatype ui_effect =
    SetIsDownloading bool
  | Alert string
  | Call_createAlbumPage entries
  | ConsoleError string js_error
  | DownloadLink string string

definition handleDownloadAll :: "'img host \<Rightarrow> generated_images \<Rightarrow> ui_effect list" where
  "handleDownloadAll h generatedImages =
     [SetIsDownloading True] @
     (let imageData = collect_imageData generatedImages in
      if length imageData < length STYLES * 2 then
        [Alert ''Please wait for all images to finish generating before downloading.'']
      else
        Call_createAlbumPage imageData #
        (case fst (createAlbumPage h [imageData] 0) of
           Inr albumDataUrl \<Rightarrow> [DownloadLink albumDataUrl ''faceframe-collection.jpg'']
         | Inl err \<Rightarrow>
             [ConsoleError ''Failed to create or download collection:'' err,
              Alert ''Sorry, there was an error creating your image collection. Please try again.''])) @
     [SetIsDownloading False]"

section \<open>Observers used in the statements\<close>

text \<open>
  The drawing states and paint operations of one cell, read off \<open>drawCell\<close> for a
  context whose state on entry is \<open>s\<close>.
\<close>

definition image_state :: "ctx_state \<Rightarrow> ctx_state" where
  "image_state s = s\<lparr>shadowColor := ''rgba(0, 0, 0, 0.1)'', shadowBlur := 25,
                     shadowOffsetX := 0, shadowOffsetY := 8\<rparr>"

definition caption_state :: "ctx_state \<Rightarrow> ctx_state" where
  "caption_state s = (image_state s)\<lparr>shadowColor := ''transparent'', fillStyle := ''#333'',
                                     font := ''42px system-ui, sans-serif'',
                                     textAlign := ''center'', textBaseline := ''top''\<rparr>"

definition cell_image :: "ctx_state \<Rightarrow> 'img \<Rightarrow> nat \<Rightarrow> 'img paint_op" where
  "cell_image s img index =
     DrawImage (image_state s) img (imgX index) (imgY index) imageWidth imageHeight"

definition cell_caption :: "ctx_state \<Rightarrow> 'img styled_image \<Rightarrow> nat \<Rightarrow> 'img paint_op" where
  "cell_caption s e index =
     FillText (caption_state s) (style e @ '' (v'' @ template_str (variation e) @ '')'')
       (cellX index + cellWidth / 2) (captionY index)"

definition background_state :: ctx_state where
  "background_state = default_state\<lparr>fillStyle := ''#f4f4f5''\<rparr>"

definition footer_state :: ctx_state where
  "footer_state = default_state\<lparr>fillStyle := ''#999'', font := ''28px system-ui, sans-serif'',
                                 textAlign := ''center''\<rparr>"

text \<open>The canvas that line 107 encodes, from the styled entries and the loaded images.\<close>

definition album_canvas :: "'img styled_image list \<Rightarrow> 'img list \<Rightarrow> 'img canvas" where
  "album_canvas iws loadedImages =
     drawFooter (drawCells iws loadedImages
       (drawBackground ((createElement_canvas 300 150)\<lparr>width := canvasWidth, height := canvasHeight\<rparr>)))"

text \<open>
  What the rasteriser of the host decides about a paint operation: the box of a text
  around its anchor, as \<open>measureText\<close> reports it for the state the text is drawn
  under (the \<open>actualBoundingBox\<close> distances of \<open>TextMetrics\<close>, taken from the
  anchor under the alignment, baseline and font of that state), and how far beyond
  the shifted shape the blurred shadow of a state still changes pixels.
\<close>

record text_metrics =
  actualBoundingBoxLeft :: real
  actualBoundingBoxRight :: real
  actualBoundingBoxAscent :: real
  actualBoundingBoxDescent :: real

record rasteriser =
  measureText :: "ctx_state \<Rightarrow> string \<Rightarrow> text_metrics"
  shadowSpread :: "ctx_state \<Rightarrow> real"

text \<open>A box by its left, top, right and bottom edge.\<close>

type_synonym box = "real \<times> real \<times> real \<times> real"

fun op_state :: "'img paint_op \<Rightarrow> ctx_state" where
  "op_state (FillRect s x y w h) = s"
| "op_state (DrawImage s img x y w h) = s"
| "op_state (FillText s txt x y) = s"

text \<open>
  The box that the shape of an operation covers.  \<open>fillText\<close> is called without a
  maximum width, so a text covers the whole of its measured box.
\<close>

fun shape_box :: "rasteriser \<Rightarrow> 'img paint_op \<Rightarrow> box" where
  "shape_box ra (FillRect s x y w h) = (x, y, x + w, y + h)"
| "shape_box ra (DrawImage s img x y w h) = (x, y, x + w, y + h)"
| "shape_box ra (FillText s txt x y) =
     (let m = measureText ra s txt
      in (x - actualBoundingBoxLeft m, y - actualBoundingBoxAscent m,
          x + actualBoundingBoxRight m, y + actualBoundingBoxDescent m))"

text \<open>
  A shadow is drawn if the shadow colour is not fully transparent (of such colours the
  program uses the initial \<open>rgba(0, 0, 0, 0)\<close> and \<open>transparent\<close>) and the blur or
  one of the offsets is not zero.  It covers the shape, shifted by the offsets, and
  what the blur spreads around that.
\<close>

definition casts_shadow :: "ctx_state \<Rightarrow> bool" where
  "casts_shadow s \<longleftrightarrow>
     shadowColor s \<noteq> ''transparent'' \<and> shadowColor s \<noteq> ''rgba(0, 0, 0, 0)'' \<and>
     \<not> (shadowBlur s = 0 \<and> shadowOffsetX s = 0 \<and> shadowOffsetY s = 0)"

definition shadow_box :: "rasteriser \<Rightarrow> 'img paint_op \<Rightarrow> box" where
  "shadow_box ra p =
     (let s = op_state p; e = shadowSpread ra s
      in case shape_box ra p of
           (l, t, r, b) \<Rightarrow>
             (l + shadowOffsetX s - e, t + shadowOffsetY s - e,
              r + shadowOffsetX s + e, b + shadowOffsetY s + e))"

definition box_overlaps_cell :: "box \<Rightarrow> nat \<Rightarrow> bool" where
  "box_overlaps_cell bx j =
     (case bx of
        (l, t, r, b) \<Rightarrow>
          l < cellX j + cellWidth \<and> cellX j < r \<and> t < cellY j + cellHeight \<and> cellY j < b)"

text \<open>
  Whether a paint operation reaches the rectangle of grid cell \<open>j\<close>: with its shape
  or with its shadow.
\<close>

definition reaches_cell :: "rasteriser \<Rightarrow> 'img paint_op \<Rightarrow> nat \<Rightarrow> bool" where
  "reaches_cell ra p j \<longleftrightarrow>
     box_overlaps_cell (shape_box ra p) j \<or>
     (casts_shadow (op_state p) \<and> box_overlaps_cell (shadow_box ra p) j)"

text \<open>
  A caption is anchored at the middle of its cell, \<open>caption_offset\<close> below the upper
  edge.  Its text stays inside the cell if its measured box does not extend further
  from the anchor than the edges of the cell are away.
\<close>

definition caption_offset :: real where
  "caption_offset = (cellHeight - imageHeight - 60) / 2 + imageHeight + 20"

definition caption_within_cell :: "rasteriser \<Rightarrow> string \<Rightarrow> bool" where
  "caption_within_cell ra txt =
     (let m = measureText ra (caption_state background_state) txt
      in actualBoundingBoxLeft m \<le> cellWidth / 2 \<and> actualBoundingBoxRight m \<le> cellWidth / 2 \<and>
         actualBoundingBoxAscent m \<le> caption_offset \<and>
         actualBoundingBoxDescent m \<le> cellHeight - caption_offset)"

definition footer_text :: string where
  "footer_text = ''Generated with FaceFrame on Google AI Studio''"

text \<open>
  The footer is anchored 30 pixels above the lower edge of the canvas.  Its text stays
  below the grid region if it does not rise further above the anchor than the grid
  region ends above it.
\<close>

definition footer_below_cells :: "rasteriser \<Rightarrow> bool" where
  "footer_below_cells ra \<longleftrightarrow>
     actualBoundingBoxAscent (measureText ra footer_state footer_text)
       \<le> canvasHeight - 30 - (padding + totalContentHeight)"









text \<open>The array \<open>sortedImageEntries\<close> of line 40, for the entries of the input.\<close>

definition sortedImageEntries :: "'img host \<Rightarrow> entries \<Rightarrow> entries" where
  "sortedImageEntries h m = sort_entries (localeCompare h) m"

text \<open>The images that \<open>Promise.all\<close> delivers when every load has succeeded.\<close>

definition loaded_images :: "'img host \<Rightarrow> entries \<Rightarrow> 'img list" where
  "loaded_images h es = map (\<lambda>e. the (decodes h (snd e))) es"

text \<open>The caption \<open>`${style} (v${variation})`\<close> of the entry with a given key.\<close>

definition caption_text :: "string \<Rightarrow> string" where
  "caption_text key =
     split_sep CHR ''_'' key ! 0 @ '' (v'' @ template_str (at_index (split_sep CHR ''_'' key) 1) @ '')''"

text \<open>The data URL of an outcome, if there is one.\<close>

definition data_url :: "js_error + string \<Rightarrow> string option" where
  "data_url res = (case res of Inl e \<Rightarrow> None | Inr u \<Rightarrow> Some u)"

text \<open>Hosts used to run the definitions on concrete inputs: an image stands for its source.\<close>

definition demo_host :: "string host" where
  "demo_host =
     \<lparr>localeCompare = rootCollationCompare, getContext2d = True,
      decodes = (\<lambda>src. if take 5 src = ''data:'' then Some src else None),
      settles_at = (\<lambda>i. 10 - i),
      toDataURL = (\<lambda>c mime q. ''data:'' @ mime @ '';'' @ string_of_nat (length (painted c)))\<rparr>"

text \<open>
  A rasteriser with a font of 20 pixels to the code unit (a capital W of the 42 pixel
  caption font is wider than that), whose texts are 42 pixels high, and whose blur
  spreads as far as its radius; and an input of one entry with a key of 60 capital
  letters.
\<close>

definition demo_rasteriser :: rasteriser where
  "demo_rasteriser =
     \<lparr>measureText = (\<lambda>s txt.
        let w = 20 * real (length txt)
        in \<lparr>actualBoundingBoxLeft = (if textAlign s = ''center'' then w / 2 else 0),
            actualBoundingBoxRight = (if textAlign s = ''center'' then w / 2 else w),
            actualBoundingBoxAscent = (if textBaseline s = ''top'' then 0 else 32),
            actualBoundingBoxDescent = (if textBaseline s = ''top'' then 42 else 10)\<rparr>),
      shadowSpread = (\<lambda>s. shadowBlur s)\<rparr>"

definition demo_long_key :: entries where
  "demo_long_key =
     [(''WWWWWWWWWWWWWWWWWWWWWWWWWWWWWWWWWWWWWWWWWWWWWWWWWWWWWWWWWWWW_1'', ''data:w'')]"

definition demo_mapping :: entries where
  "demo_mapping =
     [(''LinkedIn_1'', ''data:l1''), (''Instagram_2'', ''data:i2''), (''Instagram_1'', ''data:i1'')]"

definition demo_mapping9 :: entries where
  "demo_mapping9 =
     [(''A_1'', ''data:1''), (''A_2'', ''data:2''), (''A_3'', ''data:3''), (''A_4'', ''data:4''),
      (''A_5'', ''data:5''), (''A_6'', ''data:6''), (''A_7'', ''data:7''), (''A_8'', ''data:8''),
      (''A_9'', ''data:9'')]"

definition demo_failing :: entries where
  "demo_failing = [(''A_1'', ''bad1''), (''B_1'', ''data:b''), (''C_1'', ''bad2'')]"

definition demo_generated :: generated_images where
  "demo_generated =
     [(''Instagram'', [\<lparr>status = Done, url = Some ''data:i1'', error = None\<rparr>,
                       \<lparr>status = Pending, url = None, error = None\<rparr>]),
      (''LinkedIn'', [\<lparr>status = Failed, url = None, error = Some ''quota''\<rparr>,
                      \<lparr>status = Done, url = Some ''data:l2'', error = None\<rparr>])]"

section \<open>Sorting\<close>

lemma mset_insert_entry: "mset (insert_entry cmp e es) = add_mset e (mset es)"
  by (induction es) auto

lemma mset_sort_entries: "mset (sort_entries cmp es) = mset es"
  unfolding sort_entries_def by (induction es) (auto simp: mset_insert_entry)

lemma set_insert_entry: "set (insert_entry cmp e es) = insert e (set es)"
  by (induction es) auto

lemma length_sort_entries: "length (sort_entries cmp es) = length es"
  by (metis mset_sort_entries size_mset)

lemma set_sort_entries: "set (sort_entries cmp es) = set es"
  by (metis mset_sort_entries set_mset_mset)

lemma sorted_insert_entry:
  assumes "consistent_comparator cmp"
  shows "sorted_wrt (\<lambda>a b. cmp (fst a) (fst b) \<le> 0) es \<Longrightarrow>
         sorted_wrt (\<lambda>a b. cmp (fst a) (fst b) \<le> 0) (insert_entry cmp e es)"
proof (induction es)
  case Nil
  then show ?case by simp
next
  case (Cons y ys)
  have tot: "\<And>a b. cmp a b \<le> 0 \<or> cmp b a \<le> 0"
    and tr: "\<And>a b c. cmp a b \<le> 0 \<Longrightarrow> cmp b c \<le> 0 \<Longrightarrow> cmp a c \<le> 0"
    using assms unfolding consistent_comparator_def by blast+
  show ?case
  proof (cases "cmp (fst e) (fst y) \<le> 0")
    case True
    with Cons.prems tr show ?thesis by auto
  next
    case False
    with tot have "cmp (fst y) (fst e) \<le> 0" by blast
    with False Cons show ?thesis by (auto simp: set_insert_entry)
  qed
qed

lemma sorted_sort_entries:
  "consistent_comparator cmp \<Longrightarrow>
   sorted_wrt (\<lambda>a b. cmp (fst a) (fst b) \<le> 0) (sort_entries cmp es)"
  unfolding sort_entries_def by (induction es) (auto intro: sorted_insert_entry)

section \<open>\<open>Promise.all\<close>\<close>

lemma first_rejection_None_iff:
  "first_rejection ps = None \<longleftrightarrow> (\<forall>p \<in> set ps. \<exists>v. snd p = Inr v)"
  by (induction ps rule: first_rejection.induct) (auto split: option.splits)

lemma first_rejection_Some:
  "first_rejection ps = Some (t, e) \<Longrightarrow>
     (t, Inl e) \<in> set ps \<and> (\<forall>t' e'. (t', Inl e') \<in> set ps \<longrightarrow> t \<le> t')"
proof (induction ps arbitrary: t e rule: first_rejection.induct)
  case 1
  then show ?case by simp
next
  case (2 t0 v ps)
  then show ?case by auto
next
  case (3 t0 e0 ps)
  show ?case
  proof (cases "first_rejection ps")
    case None
    then have "\<forall>p \<in> set ps. \<exists>v. snd p = Inr v" by (simp add: first_rejection_None_iff)
    then have "\<And>t' e'. (t', Inl e') \<notin> set ps" by fastforce
    with 3 None show ?thesis by auto
  next
    case (Some p)
    obtain t1 e1 where p: "p = (t1, e1)" by (cases p)
    from "3.IH"[of t1 e1] Some p
    have ih: "(t1, Inl e1) \<in> set ps" "\<And>t' e'. (t', Inl e') \<in> set ps \<Longrightarrow> t1 \<le> t'" by auto
    show ?thesis
    proof (cases "t1 < t0")
      case True
      with "3.prems" Some p have "t = t1" "e = e1" by auto
      with ih True show ?thesis by auto
    next
      case False
      with "3.prems" Some p have "t = t0" "e = e0" by auto
      with ih False show ?thesis by fastforce
    qed
  qed
qed

lemma fulfilled_values_all:
  "\<forall>p \<in> set ps. \<exists>v. snd p = Inr v \<Longrightarrow> fulfilled_values ps = map (projr \<circ> snd) ps"
  by (induction ps rule: fulfilled_values.induct) auto

lemma Promise_all_fulfilled:
  "\<forall>p \<in> set ps. \<exists>v. snd p = Inr v \<Longrightarrow> Promise_all ps = Inr (map (projr \<circ> snd) ps)"
  using first_rejection_None_iff[of ps] by (simp add: Promise_all_def fulfilled_values_all)

lemma Promise_all_rejected:
  assumes "(t0, Inl e0) \<in> set ps"
  shows "\<exists>t e. Promise_all ps = Inl e \<and> (t, Inl e) \<in> set ps \<and>
               (\<forall>t' e'. (t', Inl e') \<in> set ps \<longrightarrow> t \<le> t')"
proof (cases "first_rejection ps")
  case None
  with assms show ?thesis by (fastforce simp: first_rejection_None_iff)
next
  case (Some p)
  obtain t e where "p = (t, e)" by (cases p)
  with Some first_rejection_Some[of ps t e] show ?thesis
    by (auto simp: Promise_all_def)
qed

section \<open>Layout arithmetic\<close>

lemma layout_values:
  "cellWidth = 750" "cellHeight = 800" "imageWidth = 690" "imageHeight = 690"
  "totalContentWidth = 3000" "totalContentHeight = 1600"
  by (simp_all add: cellWidth_def cellHeight_def imageWidth_def imageHeight_def totalContentWidth_def
      totalContentHeight_def canvasWidth_def canvasHeight_def padding_def grid_cols_def grid_rows_def
      imagePadding_def)

lemma row_div: "row index = int (index div 4)"
  unfolding row_def grid_cols_def by (metis floor_divide_of_nat_eq of_nat_numeral)

lemma col_mod: "col index = index mod 4"
  by (simp add: col_def grid_cols_def)

lemma cell_origin:
  "cellX index = 100 + 750 * real (index mod 4)" "cellY index = 100 + 800 * real (index div 4)"
  by (simp_all add: cellX_def cellY_def layout_values row_div col_mod padding_def)

lemma image_origin:
  "imgX index = cellX index + 30" "imgY index = cellY index + 25"
  "captionY index = cellY index + 735"
  by (simp_all add: imgX_def imgY_def captionY_def layout_values)

section \<open>The modelled collation is a consistent comparator\<close>

lemma weights_compare_flip: "weights_compare ys xs = - weights_compare xs ys"
  by (induction xs ys rule: weights_compare.induct) auto

lemma weights_compare_zero: "weights_compare xs ys = 0 \<longleftrightarrow> xs = ys"
  by (induction xs ys rule: weights_compare.induct) auto

lemma weights_compare_trans:
  "weights_compare xs ys \<le> 0 \<Longrightarrow> weights_compare ys zs \<le> 0 \<Longrightarrow> weights_compare xs zs \<le> 0"
proof (induction xs arbitrary: ys zs)
  case Nil
  then show ?case by (cases zs) simp_all
next
  case (Cons x xs)
  from Cons.prems(1) obtain y ys' where ys: "ys = y # ys'" by (cases ys) auto
  from Cons.prems(2) ys obtain z zs' where zs: "zs = z # zs'" by (cases zs) auto
  from Cons.prems(1) ys have xy: "x < y \<or> (x = y \<and> weights_compare xs ys' \<le> 0)"
    by (simp split: if_splits)
  from Cons.prems(2) ys zs have yz: "y < z \<or> (y = z \<and> weights_compare ys' zs' \<le> 0)"
    by (simp split: if_splits)
  show ?case
  proof (cases "x < z")
    case True
    with zs show ?thesis by simp
  next
    case False
    with xy yz have "x = y" "y = z" "weights_compare xs ys' \<le> 0" "weights_compare ys' zs' \<le> 0"
      by auto
    with Cons.IH[of ys' zs'] zs show ?thesis by simp
  qed
qed

lemma rootCollationCompare_consistent: "consistent_comparator rootCollationCompare"
  unfolding consistent_comparator_def
proof (intro conjI allI impI)
  fix a b
  show "rootCollationCompare a b \<le> 0 \<or> rootCollationCompare b a \<le> 0"
    using weights_compare_flip[of "map primary_weight b" "map primary_weight a"]
      weights_compare_flip[of "map case_weight b" "map case_weight a"]
    by (auto simp: rootCollationCompare_def Let_def)
next
  fix a b c
  assume ab: "rootCollationCompare a b \<le> 0" and bc: "rootCollationCompare b c \<le> 0"
  let ?P = "map primary_weight" and ?T = "map case_weight"
  show "rootCollationCompare a c \<le> 0"
  proof (cases "weights_compare (?P a) (?P b) = 0")
    case True
    then have eq: "?P a = ?P b" by (simp add: weights_compare_zero)
    show ?thesis
    proof (cases "weights_compare (?P b) (?P c) = 0")
      case True
      with eq ab bc \<open>weights_compare (?P a) (?P b) = 0\<close> show ?thesis
        using weights_compare_trans[of "?T a" "?T b" "?T c"]
        by (simp add: rootCollationCompare_def Let_def)
    next
      case False
      with eq bc show ?thesis by (simp add: rootCollationCompare_def Let_def)
    qed
  next
    case False
    with ab have lt: "weights_compare (?P a) (?P b) < 0"
      by (simp add: rootCollationCompare_def Let_def)
    show ?thesis
    proof (cases "weights_compare (?P b) (?P c) = 0")
      case True
      then have "?P b = ?P c" by (simp add: weights_compare_zero)
      with lt show ?thesis by (simp add: rootCollationCompare_def Let_def)
    next
      case F2: False
      with bc have lt2: "weights_compare (?P b) (?P c) \<le> 0"
        by (simp add: rootCollationCompare_def Let_def)
      from lt have "weights_compare (?P a) (?P b) \<le> 0" by simp
      from weights_compare_trans[OF this lt2] have le: "weights_compare (?P a) (?P c) \<le> 0" .
      have "weights_compare (?P a) (?P c) \<noteq> 0"
      proof
        assume "weights_compare (?P a) (?P c) = 0"
        then have "?P a = ?P c" by (simp add: weights_compare_zero)
        with lt weights_compare_flip[of "?P b" "?P c"] lt2 F2 show False by simp
      qed
      with le show ?thesis by (simp add: rootCollationCompare_def Let_def)
    qed
  qed
qed

lemma demo_host_consistent: "consistent_comparator (localeCompare demo_host)"
  by (simp add: demo_host_def rootCollationCompare_consistent)

section \<open>The store after a call\<close>

lemma createAlbumPage_store:
  "getContext2d h \<Longrightarrow>
   snd (createAlbumPage h st r) = st @ [sort_entries (localeCompare h) (st ! r)]"
  by (simp add: createAlbumPage_def Object_entries_def Array_sort_def Let_def split: sum.splits)

lemma createAlbumPage_no_context:
  "\<not> getContext2d h \<Longrightarrow>
   createAlbumPage h st r = (Inl (Error ''Could not get 2D canvas context''), st)"
  by (simp add: createAlbumPage_def)

section \<open>Sort order of the entries\<close>

text \<open>
  C1, as stated, fails.  The claim says that the entries are ordered by ordinary
  lexicographic string comparison on the full key.  The callback of line 40 is
  \<open>keyA.localeCompare(keyB)\<close>, the collation of the host, and under the default
  collation the keys \<open>B_1\<close> and \<open>a_1\<close> come out as \<open>a_1\<close>, \<open>B_1\<close> (the array that
  the call leaves in the store), whereas \<open>B_1\<close> is the lexicographically smaller key.
\<close>

theorem sort_not_lexicographic_counterexample:
  "snd (createAlbumPage demo_host [[(''B_1'', ''data:b''), (''a_1'', ''data:a'')]] 0) =
     [[(''B_1'', ''data:b''), (''a_1'', ''data:a'')],
      [(''a_1'', ''data:a''), (''B_1'', ''data:b'')]]
   \<and> lexicographic_less ''B_1'' ''a_1''"
  by (simp add: createAlbumPage_store demo_host_def sort_entries_def rootCollationCompare_def
      primary_weight_def case_weight_def)

text \<open>
  C1, amended: for every input mapping and every host whose \<open>localeCompare\<close> is a
  consistent comparator, the array \<open>sortedImageEntries\<close> is a permutation of the
  entries of the input that is ordered by \<open>localeCompare\<close> on the full keys; and the
  order is not numeric on the variation suffix: whenever \<open>localeCompare\<close> ranks
  \<open>A_2\<close> after \<open>A_10\<close>, the entry \<open>A_10\<close> stands before the entry \<open>A_2\<close>.
\<close>

theorem entries_sorted_by_localeCompare:
  assumes "consistent_comparator (localeCompare h)" and "getContext2d h"
  shows "let es = sortedImageEntries h (st ! r) in
      snd (createAlbumPage h st r) = st @ [es] \<and>
      sorted_wrt (\<lambda>a b. localeCompare h (fst a) (fst b) \<le> 0) es \<and>
      mset es = mset (st ! r) \<and>
      (\<forall>u v. (''A_10'', u) \<in> set (st ! r) \<longrightarrow> (''A_2'', v) \<in> set (st ! r) \<longrightarrow>
             0 < localeCompare h ''A_2'' ''A_10'' \<longrightarrow>
             (\<exists>i j. i < j \<and> j < length es \<and> es ! i = (''A_10'', u) \<and> es ! j = (''A_2'', v)))"
proof -
  let ?s = "sortedImageEntries h (st ! r)"
  have s_def: "?s = sort_entries (localeCompare h) (st ! r)" by (simp add: sortedImageEntries_def)
  have srt: "sorted_wrt (\<lambda>a b. localeCompare h (fst a) (fst b) \<le> 0) ?s"
    unfolding s_def using assms(1) by (rule sorted_sort_entries)
  have pos: "\<exists>i j. i < j \<and> j < length ?s \<and> ?s ! i = (''A_10'', u) \<and> ?s ! j = (''A_2'', v)"
    if a: "(''A_10'', u) \<in> set (st ! r)" and b: "(''A_2'', v) \<in> set (st ! r)"
      and gt: "0 < localeCompare h ''A_2'' ''A_10''" for u v
  proof -
    from a obtain i where i: "i < length ?s" "?s ! i = (''A_10'', u)"
      unfolding s_def by (metis in_set_conv_nth set_sort_entries)
    from b obtain j where j: "j < length ?s" "?s ! j = (''A_2'', v)"
      unfolding s_def by (metis in_set_conv_nth set_sort_entries)
    have "i \<noteq> j" using i j by auto
    moreover have "\<not> j < i"
    proof
      assume ji: "j < i"
      from sorted_wrt_nth_less[OF srt ji i(1)] i j gt show False by simp
    qed
    ultimately have "i < j" by simp
    with i j show ?thesis by blast
  qed
  have perm: "mset ?s = mset (st ! r)" unfolding s_def by (rule mset_sort_entries)
  have stor: "snd (createAlbumPage h st r) = st @ [?s]"
    unfolding s_def by (rule createAlbumPage_store[OF assms(2)])
  show ?thesis unfolding Let_def using stor srt perm pos by blast
qed

theorem entries_sorted_by_localeCompare_witness:
  "consistent_comparator (localeCompare demo_host) \<and> getContext2d demo_host \<and>
   0 < localeCompare demo_host ''A_2'' ''A_10'' \<and>
   snd (createAlbumPage demo_host [[(''A_2'', ''data:2''), (''A_10'', ''data:10'')]] 0) =
     [[(''A_2'', ''data:2''), (''A_10'', ''data:10'')],
      [(''A_10'', ''data:10''), (''A_2'', ''data:2'')]]"
proof -
  have c: "consistent_comparator (localeCompare demo_host)" by (rule demo_host_consistent)
  have g: "getContext2d demo_host" by (simp add: demo_host_def)
  have gt: "0 < localeCompare demo_host ''A_2'' ''A_10''"
    by (simp add: demo_host_def rootCollationCompare_def primary_weight_def case_weight_def)
  have es: "sortedImageEntries demo_host [(''A_2'', ''data:2''), (''A_10'', ''data:10'')] =
              [(''A_10'', ''data:10''), (''A_2'', ''data:2'')]"
    by (simp add: sortedImageEntries_def demo_host_def sort_entries_def rootCollationCompare_def
        primary_weight_def case_weight_def)
  from entries_sorted_by_localeCompare[OF c g, of "[[(''A_2'', ''data:2''), (''A_10'', ''data:10'')]]" 0]
  have "snd (createAlbumPage demo_host [[(''A_2'', ''data:2''), (''A_10'', ''data:10'')]] 0) =
     [[(''A_2'', ''data:2''), (''A_10'', ''data:10'')],
      [(''A_10'', ''data:10''), (''A_2'', ''data:2'')]]"
    by (simp add: Let_def es)
  with c g gt show ?thesis by blast
qed

section \<open>The image box of a cell\<close>




section \<open>The message of a failed load\<close>

text \<open>
  C8, as stated, fails: \<open>substring(0, 50)\<close> keeps a source of at most 50 code units
  whole, so the message of its failed load carries the full source.
\<close>

theorem load_error_full_source_counterexample:
  "snd (loadImage demo_host 0 ''bad.png'') =
     Inl (Error (''Failed to load image: '' @ ''bad.png'' @ ''...''))"
  by (simp add: loadImage_def demo_host_def load_error_message_def)

text \<open>
  C8, amended: when a load fails the loader rejects with the message
  \<open>Failed to load image: \<close>, the first 50 code units of the source, and \<open>...\<close>.
  What is carried is a prefix of the source of at most 50 code units: a proper
  prefix of a source longer than that, the whole of a shorter one.
\<close>

theorem load_error_carries_prefix:
  assumes "decodes h src = None"
  shows "snd (loadImage h i src) = Inl (Error (''Failed to load image: '' @ take 50 src @ ''...''))
    \<and> prefix (take 50 src) src \<and> length (take 50 src) \<le> 50
    \<and> (50 < length src \<longrightarrow> take 50 src \<noteq> src) \<and> (length src \<le> 50 \<longrightarrow> take 50 src = src)"
  using assms by (auto simp: loadImage_def load_error_message_def take_is_prefix)

theorem load_error_carries_prefix_witness:
  "decodes demo_host ''https://example.com/images/portraits/instagram-variation-1.jpg'' = None \<and>
   snd (loadImage demo_host 0 ''https://example.com/images/portraits/instagram-variation-1.jpg'') =
     Inl (Error ''Failed to load image: https://example.com/images/portraits/instagram-var...'')"
proof -
  have h: "decodes demo_host ''https://example.com/images/portraits/instagram-variation-1.jpg'' = None"
    by (simp add: demo_host_def)
  show ?thesis using h load_error_carries_prefix[OF h, of 0] by simp
qed

section \<open>What is painted\<close>

lemma drawCell_painted:
  "drawCell iws img index c =
     c\<lparr>painted := painted c @ [cell_image (cstate c) img index, cell_caption (cstate c) (iws ! index) index]\<rparr>"
  by (simp add: drawCell_def save_def restore_def drawImage_def fillText_def cell_image_def
      cell_caption_def image_state_def caption_state_def Let_def)

lemma drawCells_from:
  "foldl (\<lambda>c (index, img). drawCell iws img index c) c (enumerate n imgs) =
   c\<lparr>painted := painted c @
        concat (map (\<lambda>(index, img). [cell_image (cstate c) img index,
                                       cell_caption (cstate c) (iws ! index) index])
                  (enumerate n imgs))\<rparr>"
proof (induction imgs arbitrary: c n)
  case Nil
  show ?case by simp
next
  case (Cons img imgs)
  show ?case by (simp add: Cons.IH) (simp add: drawCell_painted)
qed

lemma drawCells_painted:
  "drawCells iws imgs c =
   c\<lparr>painted := painted c @
        concat (map (\<lambda>p. [cell_image (cstate c) (snd p) (fst p),
                            cell_caption (cstate c) (iws ! fst p) (fst p)])
                  (enumerate 0 imgs))\<rparr>"
  unfolding drawCells_def drawCells_from by (simp add: split_def)

lemma album_canvas_eq:
  "album_canvas iws imgs =
     \<lparr>width = canvasWidth, height = canvasHeight, cstate = footer_state, saved = [],
      painted = FillRect background_state 0 0 canvasWidth canvasHeight #
                concat (map (\<lambda>p. [cell_image background_state (snd p) (fst p),
                                    cell_caption background_state (iws ! fst p) (fst p)])
                          (enumerate 0 imgs)) @
                [FillText footer_state ''Generated with FaceFrame on Google AI Studio''
                   (canvasWidth / 2) (canvasHeight - 30)]\<rparr>"
  by (simp add: album_canvas_def drawFooter_def drawCells_painted drawBackground_def
      createElement_canvas_def fillRect_def fillText_def background_state_def footer_state_def)

lemma length_concat_pairs: "length (concat (map (\<lambda>x. [f x, g x]) xs)) = 2 * length xs"
  by (induction xs) auto

lemma concat_pairs_nth:
  "i < length xs \<Longrightarrow> concat (map (\<lambda>x. [f x, g x]) xs) ! (2 * i) = f (xs ! i) \<and>
     concat (map (\<lambda>x. [f x, g x]) xs) ! (2 * i + 1) = g (xs ! i)"
proof (induction xs arbitrary: i)
  case Nil
  then show ?case by simp
next
  case (Cons x xs)
  show ?case
  proof (cases i)
    case 0
    then show ?thesis by simp
  next
    case (Suc k)
    with Cons.prems have "k < length xs" by simp
    from Cons.IH[OF this] Suc show ?thesis by simp
  qed
qed

lemma album_canvas_size:
  "width (album_canvas iws imgs) = 3200" "height (album_canvas iws imgs) = 1800"
  "length (painted (album_canvas iws imgs)) = 2 * length imgs + 2"
  by (simp_all add: album_canvas_eq canvasWidth_def canvasHeight_def length_concat_pairs)

lemma album_canvas_first:
  "painted (album_canvas iws imgs) ! 0 = FillRect background_state 0 0 3200 1800"
  by (simp add: album_canvas_eq canvasWidth_def canvasHeight_def)

lemma album_canvas_last:
  "painted (album_canvas iws imgs) ! (2 * length imgs + 1) =
     FillText footer_state ''Generated with FaceFrame on Google AI Studio'' 1600 1770"
proof -
  let ?cells = "concat (map (\<lambda>p. [cell_image background_state (snd p) (fst p),
                                    cell_caption background_state (iws ! fst p) (fst p)])
                          (enumerate 0 imgs))"
  have "length ?cells = 2 * length imgs" by (simp add: length_concat_pairs)
  then show ?thesis
    by (simp add: album_canvas_eq nth_append canvasWidth_def canvasHeight_def)
qed

lemma album_canvas_cell:
  assumes "i < length imgs"
  shows "painted (album_canvas iws imgs) ! (2 * i + 1) = cell_image background_state (imgs ! i) i"
    and "painted (album_canvas iws imgs) ! (2 * i + 2) = cell_caption background_state (iws ! i) i"
proof -
  let ?f = "\<lambda>p. cell_image background_state (snd p) (fst p)"
  let ?g = "\<lambda>p. cell_caption background_state (iws ! fst p) (fst p)"
  let ?cells = "concat (map (\<lambda>p. [?f p, ?g p]) (enumerate 0 imgs))"
  have len: "length ?cells = 2 * length imgs" by (simp add: length_concat_pairs)
  from assms have i: "i < length (enumerate 0 imgs)" by simp
  from concat_pairs_nth[OF i, of ?f ?g] assms
  have a: "?cells ! (2 * i) = cell_image background_state (imgs ! i) i"
    and b: "?cells ! (2 * i + 1) = cell_caption background_state (iws ! i) i"
    by (simp_all add: nth_enumerate_eq)
  from assms len have lt: "2 * i < length ?cells" "2 * i + 1 < length ?cells" by simp_all
  show "painted (album_canvas iws imgs) ! (2 * i + 1) = cell_image background_state (imgs ! i) i"
    using a lt by (simp add: album_canvas_eq nth_append)
  show "painted (album_canvas iws imgs) ! (2 * i + 2) = cell_caption background_state (iws ! i) i"
    using b lt by (simp add: album_canvas_eq nth_append)
qed

section \<open>The outcome of a call\<close>

lemma length_imagesWithStyles: "length (imagesWithStyles h es) = length es"
  by (simp add: imagesWithStyles_def)

lemma nth_imagesWithStyles:
  "i < length es \<Longrightarrow> imagesWithStyles h es ! i =
     \<lparr>style = split_sep CHR ''_'' (fst (es ! i)) ! 0,
      variation = at_index (split_sep CHR ''_'' (fst (es ! i))) 1,
      imgPromise = loadImage h i (snd (es ! i))\<rparr>"
  by (simp add: imagesWithStyles_def nth_enumerate_eq split: prod.splits)

lemma promises_eq:
  "map imgPromise (imagesWithStyles h es) = map (\<lambda>p. loadImage h (fst p) (snd (snd p))) (enumerate 0 es)"
  by (simp add: imagesWithStyles_def split_def)

lemma Promise_all_loaded:
  assumes "\<forall>e \<in> set es. decodes h (snd e) \<noteq> None"
  shows "Promise_all (map imgPromise (imagesWithStyles h es)) =
         Inr (map (\<lambda>e. the (decodes h (snd e))) es)"
proof -
  let ?ps = "map imgPromise (imagesWithStyles h es)"
  have all: "\<forall>p \<in> set ?ps. \<exists>v. snd p = Inr v"
  proof
    fix p assume "p \<in> set ?ps"
    then obtain i where i: "i < length es" and p: "p = loadImage h i (snd (es ! i))"
      by (auto simp: promises_eq in_set_enumerate_eq)
    from i have "es ! i \<in> set es" by simp
    with assms obtain img where "decodes h (snd (es ! i)) = Some img" by auto
    with p show "\<exists>v. snd p = Inr v" by (simp add: loadImage_def)
  qed
  have "map (projr \<circ> snd) ?ps = map (\<lambda>e. the (decodes h (snd e))) es"
  proof (rule nth_equalityI)
    show "length (map (projr \<circ> snd) ?ps) = length (map (\<lambda>e. the (decodes h (snd e))) es)"
      by (simp add: length_imagesWithStyles)
  next
    fix i assume "i < length (map (projr \<circ> snd) ?ps)"
    then have i: "i < length es" by (simp add: length_imagesWithStyles)
    then have "es ! i \<in> set es" by simp
    with assms obtain img where "decodes h (snd (es ! i)) = Some img" by auto
    with i show "map (projr \<circ> snd) ?ps ! i = map (\<lambda>e. the (decodes h (snd e))) es ! i"
      by (simp add: length_imagesWithStyles nth_imagesWithStyles loadImage_def)
  qed
  with Promise_all_fulfilled[OF all] show ?thesis by simp
qed

lemma createAlbumPage_result:
  assumes "getContext2d h"
  shows "fst (createAlbumPage h st r) =
     (let iws = imagesWithStyles h (sort_entries (localeCompare h) (st ! r))
      in case Promise_all (map imgPromise iws) of
            Inl e \<Rightarrow> Inl e
          | Inr loadedImages \<Rightarrow> Inr (toDataURL h (album_canvas iws loadedImages) ''image/jpeg'' 0.95))"
  using assms
  by (simp add: createAlbumPage_def Object_entries_def Array_sort_def Let_def album_canvas_def
      split: sum.splits)

lemma createAlbumPage_success:
  assumes "getContext2d h" and "\<forall>e \<in> set (st ! r). decodes h (snd e) \<noteq> None"
  shows "fst (createAlbumPage h st r) =
     Inr (toDataURL h
            (album_canvas (imagesWithStyles h (sort_entries (localeCompare h) (st ! r)))
                          (loaded_images h (sort_entries (localeCompare h) (st ! r))))
            ''image/jpeg'' 0.95)"
proof -
  from assms(2) have "\<forall>e \<in> set (sort_entries (localeCompare h) (st ! r)). decodes h (snd e) \<noteq> None"
    by (simp add: set_sort_entries)
  from Promise_all_loaded[OF this] show ?thesis
    by (simp add: createAlbumPage_result[OF assms(1)] loaded_images_def)
qed

section \<open>Grid positions\<close>

text \<open>
  C2: when the context is available and every image loads, the call returns the
  encoding of a canvas on which the entry at index \<open>i\<close> of the sorted entries is
  drawn in the cell at row \<open>i div 4\<close> (the floor of \<open>i / 4\<close>) and column
  \<open>i mod 4\<close>: its image box and its caption are the paint operations number
  \<open>2 i + 1\<close> and \<open>2 i + 2\<close>, placed from the origin of that cell.  This holds
  for any number of entries, in particular for at most 8.
\<close>

theorem entry_drawn_in_row_major_cell:
  assumes "getContext2d h" and "\<forall>e \<in> set (st ! r). decodes h (snd e) \<noteq> None"
    and "i < length (st ! r)"
  shows "let es = sortedImageEntries h (st ! r);
             c = album_canvas (imagesWithStyles h es) (loaded_images h es)
         in fst (createAlbumPage h st r) = Inr (toDataURL h c ''image/jpeg'' 0.95) \<and>
            row i = int (i div 4) \<and> col i = i mod 4 \<and>
            painted c ! (2 * i + 1) =
              DrawImage (image_state background_state) (the (decodes h (snd (es ! i))))
                (padding + real (i mod 4) * cellWidth + imagePadding)
                (padding + real (i div 4) * cellHeight + 25) imageWidth imageHeight \<and>
            painted c ! (2 * i + 2) =
              FillText (caption_state background_state) (caption_text (fst (es ! i)))
                (padding + real (i mod 4) * cellWidth + cellWidth / 2)
                (padding + real (i div 4) * cellHeight + 25 + imageHeight + 20)"
proof -
  let ?es = "sortedImageEntries h (st ! r)"
  let ?c = "album_canvas (imagesWithStyles h ?es) (loaded_images h ?es)"
  have i: "i < length ?es" using assms(3) by (simp add: sortedImageEntries_def length_sort_entries)
  then have il: "i < length (loaded_images h ?es)" by (simp add: loaded_images_def)
  have res: "fst (createAlbumPage h st r) = Inr (toDataURL h ?c ''image/jpeg'' 0.95)"
    using createAlbumPage_success[OF assms(1,2)] by (simp add: sortedImageEntries_def)
  have img: "painted ?c ! (2 * i + 1) =
       DrawImage (image_state background_state) (the (decodes h (snd (?es ! i))))
                (padding + real (i mod 4) * cellWidth + imagePadding)
                (padding + real (i div 4) * cellHeight + 25) imageWidth imageHeight"
    using album_canvas_cell(1)[OF il] i
    by (simp add: cell_image_def loaded_images_def image_origin cell_origin layout_values
        padding_def imagePadding_def)
  have cap: "painted ?c ! (2 * i + 2) =
       FillText (caption_state background_state) (caption_text (fst (?es ! i)))
                (padding + real (i mod 4) * cellWidth + cellWidth / 2)
                (padding + real (i div 4) * cellHeight + 25 + imageHeight + 20)"
    using album_canvas_cell(2)[OF il] i
    by (simp add: cell_caption_def nth_imagesWithStyles caption_text_def image_origin cell_origin
        layout_values padding_def)
  show ?thesis using res img cap by (simp add: Let_def row_div col_mod)
qed

lemma demo_sorted:
  "sortedImageEntries demo_host demo_mapping =
     [(''Instagram_1'', ''data:i1''), (''Instagram_2'', ''data:i2''), (''LinkedIn_1'', ''data:l1'')]"
  by (simp add: sortedImageEntries_def demo_mapping_def demo_host_def sort_entries_def
      rootCollationCompare_def primary_weight_def case_weight_def)

theorem entry_drawn_in_row_major_cell_witness:
  "getContext2d demo_host \<and>
   2 < length ([demo_mapping] ! 0) \<and>
   painted (album_canvas (imagesWithStyles demo_host (sortedImageEntries demo_host demo_mapping))
              (loaded_images demo_host (sortedImageEntries demo_host demo_mapping))) ! 5 =
     DrawImage (image_state background_state) ''data:l1'' 1630 125 690 690 \<and>
   painted (album_canvas (imagesWithStyles demo_host (sortedImageEntries demo_host demo_mapping))
              (loaded_images demo_host (sortedImageEntries demo_host demo_mapping))) ! 6 =
     FillText (caption_state background_state) ''LinkedIn (v1)'' 1975 835"
proof -
  have g: "getContext2d demo_host" by (simp add: demo_host_def)
  have d: "\<forall>e \<in> set ([demo_mapping] ! 0). decodes demo_host (snd e) \<noteq> None"
    by (simp add: demo_mapping_def demo_host_def)
  have l: "2 < length ([demo_mapping] ! 0)" by (simp add: demo_mapping_def)
  have dec: "decodes demo_host ''data:l1'' = Some ''data:l1''" by (simp add: demo_host_def)
  have cap: "caption_text ''LinkedIn_1'' = ''LinkedIn (v1)''"
    by (simp add: caption_text_def at_index_def template_str_def)
  show ?thesis
    using g l entry_drawn_in_row_major_cell[OF g d l]
    by (simp add: Let_def demo_sorted dec cap layout_values padding_def imagePadding_def)
qed

section \<open>Size, encoding and cells left blank\<close>

lemma cells_apart:
  assumes "i \<noteq> j"
  shows "cellX i + 750 \<le> cellX j \<or> cellX j + 750 \<le> cellX i \<or>
         cellY i + 800 \<le> cellY j \<or> cellY j + 800 \<le> cellY i"
proof (cases "i mod 4 = j mod 4")
  case False
  then have "real (i mod 4) + 1 \<le> real (j mod 4) \<or> real (j mod 4) + 1 \<le> real (i mod 4)"
    by linarith
  then show ?thesis by (auto simp: cell_origin)
next
  case True
  with assms have "i div 4 \<noteq> j div 4" by (metis div_mult_mod_eq)
  then have "real (i div 4) + 1 \<le> real (j div 4) \<or> real (j div 4) + 1 \<le> real (i div 4)"
    by linarith
  then show ?thesis by (auto simp: cell_origin)
qed

lemma cell_image_elsewhere:
  assumes "i \<noteq> j" and "shadowSpread ra (image_state s) \<le> imagePadding"
  shows "\<not> reaches_cell ra (cell_image s img i) j"
  using cells_apart[OF assms(1)] assms(2)
  by (auto simp: reaches_cell_def box_overlaps_cell_def shadow_box_def cell_image_def
      image_state_def image_origin layout_values imagePadding_def Let_def)

lemma caption_casts_no_shadow: "\<not> casts_shadow (caption_state s)"
  by (simp add: casts_shadow_def caption_state_def)

lemma footer_casts_no_shadow: "\<not> casts_shadow footer_state"
  by (simp add: casts_shadow_def footer_state_def default_state_def)

lemma caption_offset_value: "caption_offset = 735"
  by (simp add: caption_offset_def layout_values)

lemma cell_caption_elsewhere:
  assumes "i \<noteq> j"
    and "caption_within_cell ra (style e @ '' (v'' @ template_str (variation e) @ '')'')"
  shows "\<not> reaches_cell ra (cell_caption background_state e i) j"
  using cells_apart[OF assms(1)] assms(2)
  by (auto simp: reaches_cell_def box_overlaps_cell_def cell_caption_def caption_casts_no_shadow
      caption_within_cell_def caption_offset_value image_origin layout_values Let_def)

lemma footer_below_grid:
  assumes "j < 8" and "actualBoundingBoxAscent (measureText ra footer_state txt) \<le> 70"
  shows "\<not> reaches_cell ra (FillText footer_state txt x 1770) j"
proof -
  from assms(1) have "j div 4 \<le> 1" by simp
  then have "real (j div 4) \<le> 1" by (metis of_nat_1 of_nat_le_iff)
  with assms(2) show ?thesis
    by (simp add: reaches_cell_def box_overlaps_cell_def footer_casts_no_shadow cell_origin
        layout_values Let_def)
qed

lemma demo_long_caption_text:
  "caption_text ''WWWWWWWWWWWWWWWWWWWWWWWWWWWWWWWWWWWWWWWWWWWWWWWWWWWWWWWWWWWW_1'' =
     ''WWWWWWWWWWWWWWWWWWWWWWWWWWWWWWWWWWWWWWWWWWWWWWWWWWWWWWWWWWWW (v1)''"
  by (simp add: caption_text_def at_index_def template_str_def)

lemma demo_long_caption_op:
  "cell_caption background_state (imagesWithStyles demo_host demo_long_key ! 0) 0 =
     FillText (caption_state background_state)
       ''WWWWWWWWWWWWWWWWWWWWWWWWWWWWWWWWWWWWWWWWWWWWWWWWWWWWWWWWWWWW (v1)'' 475 835"
proof -
  have "cell_caption background_state (imagesWithStyles demo_host demo_long_key ! 0) 0 =
     FillText (caption_state background_state)
       (caption_text ''WWWWWWWWWWWWWWWWWWWWWWWWWWWWWWWWWWWWWWWWWWWWWWWWWWWWWWWWWWWW_1'') 475 835"
    by (simp add: nth_imagesWithStyles demo_long_key_def cell_caption_def caption_text_def
        cell_origin image_origin layout_values del: split_sep.simps)
  then show ?thesis by (simp only: demo_long_caption_text)
qed

lemma demo_long_caption_metrics:
  "measureText demo_rasteriser (caption_state background_state)
     ''WWWWWWWWWWWWWWWWWWWWWWWWWWWWWWWWWWWWWWWWWWWWWWWWWWWWWWWWWWWW (v1)'' =
   \<lparr>actualBoundingBoxLeft = 650, actualBoundingBoxRight = 650,
    actualBoundingBoxAscent = 0, actualBoundingBoxDescent = 42\<rparr>"
  by (simp add: demo_rasteriser_def caption_state_def Let_def)

lemma demo_long_caption_reaches:
  "reaches_cell demo_rasteriser
     (FillText (caption_state background_state)
        ''WWWWWWWWWWWWWWWWWWWWWWWWWWWWWWWWWWWWWWWWWWWWWWWWWWWWWWWWWWWW (v1)'' 475 835) (1::nat)"
  by (simp add: reaches_cell_def box_overlaps_cell_def demo_long_caption_metrics cell_origin
      layout_values)

text \<open>
  C4, as stated, fails in its last part.  The caption is drawn with \<open>fillText\<close> and
  no maximum width (line 94), so the caption of a long key is wider than its cell.
  For an input of one entry whose key has 60 capital letters the call succeeds, and
  the caption (paint operation 2) reaches cell 1, which is not filled.
\<close>

theorem long_caption_reaches_blank_cell_counterexample:
  "getContext2d demo_host \<and> length ([demo_long_key] ! 0) = 1 \<and>
   fst (createAlbumPage demo_host [demo_long_key] 0) = Inr ''data:image/jpeg;4'' \<and>
   reaches_cell demo_rasteriser
     (painted (album_canvas (imagesWithStyles demo_host (sortedImageEntries demo_host demo_long_key))
                 (loaded_images demo_host (sortedImageEntries demo_host demo_long_key))) ! 2) 1"
proof -
  let ?es = "sortedImageEntries demo_host demo_long_key"
  let ?c = "album_canvas (imagesWithStyles demo_host ?es) (loaded_images demo_host ?es)"
  have g: "getContext2d demo_host" by (simp add: demo_host_def)
  have es: "?es = demo_long_key"
    by (simp add: sortedImageEntries_def sort_entries_def demo_long_key_def)
  have d: "\<forall>e \<in> set ([demo_long_key] ! 0). decodes demo_host (snd e) \<noteq> None"
    by (simp add: demo_long_key_def demo_host_def)
  have enc: "toDataURL demo_host ?c ''image/jpeg'' 0.95 = ''data:image/jpeg;4''"
    by (simp add: demo_host_def album_canvas_size loaded_images_def sortedImageEntries_def
        length_sort_entries demo_long_key_def string_of_nat.simps)
  have res: "fst (createAlbumPage demo_host [demo_long_key] 0) = Inr ''data:image/jpeg;4''"
    using createAlbumPage_success[OF g d] enc by (simp add: sortedImageEntries_def)
  have l: "0 < length (loaded_images demo_host ?es)"
    by (simp add: loaded_images_def sortedImageEntries_def length_sort_entries demo_long_key_def)
  have "painted ?c ! (2 * 0 + 2) =
          cell_caption background_state (imagesWithStyles demo_host ?es ! 0) 0"
    by (rule album_canvas_cell(2)[OF l])
  then have op: "painted ?c ! 2 =
      cell_caption background_state (imagesWithStyles demo_host demo_long_key ! 0) 0"
    unfolding es by (simp add: numeral_2_eq_2)
  have "reaches_cell demo_rasteriser (painted ?c ! 2) 1"
    unfolding op demo_long_caption_op by (rule demo_long_caption_reaches)
  moreover have "length ([demo_long_key] ! 0) = 1" by (simp add: demo_long_key_def)
  ultimately show ?thesis using g res by blast
qed

text \<open>
  C4, amended: for an input of at most 8 entries whose images all load (and a host
  that hands out the 2D context), the call succeeds and returns what \<open>toDataURL\<close>
  makes of the canvas for the type \<open>image/jpeg\<close> and quality 0.95; that canvas is
  3200 by 1800, however many entries there are, and its first paint operation fills
  all of it with the background colour.  If moreover the text of every caption stays
  inside its own cell, the text of the footer stays below the grid region and the
  blur of the image shadow spreads no further than the inter-image padding, then no
  later paint operation reaches, with its shape or its shadow, a grid cell whose
  index is not below the number of entries.
\<close>

theorem fixed_size_jpeg_and_blank_cells:
  assumes "getContext2d h" and "\<forall>e \<in> set (st ! r). decodes h (snd e) \<noteq> None"
    and "length (st ! r) \<le> 8"
  shows "let es = sortedImageEntries h (st ! r);
             c = album_canvas (imagesWithStyles h es) (loaded_images h es)
         in fst (createAlbumPage h st r) = Inr (toDataURL h c ''image/jpeg'' 0.95) \<and>
            width c = 3200 \<and> height c = 1800 \<and>
            painted c ! 0 = FillRect background_state 0 0 3200 1800 \<and>
            fillStyle background_state = ''#f4f4f5'' \<and>
            ((\<forall>e \<in> set (st ! r). caption_within_cell ra (caption_text (fst e))) \<and>
             footer_below_cells ra \<and>
             shadowSpread ra (image_state background_state) \<le> imagePadding \<longrightarrow>
             (\<forall>j k. length (st ! r) \<le> j \<and> j < 8 \<and> k < length (painted c) \<and>
                    reaches_cell ra (painted c ! k) j \<longrightarrow> k = 0))"
proof -
  let ?es = "sortedImageEntries h (st ! r)"
  let ?imgs = "loaded_images h ?es"
  let ?iws = "imagesWithStyles h ?es"
  let ?c = "album_canvas ?iws ?imgs"
  have n: "length ?imgs = length (st ! r)"
    by (simp add: loaded_images_def sortedImageEntries_def length_sort_entries)
  have n': "length ?es = length (st ! r)"
    by (simp add: sortedImageEntries_def length_sort_entries)
  have res: "fst (createAlbumPage h st r) = Inr (toDataURL h ?c ''image/jpeg'' 0.95)"
    using createAlbumPage_success[OF assms(1,2)] by (simp add: sortedImageEntries_def)
  have blank: "k = 0"
    if caps: "\<forall>e \<in> set (st ! r). caption_within_cell ra (caption_text (fst e))"
      and foot: "footer_below_cells ra"
      and shadow: "shadowSpread ra (image_state background_state) \<le> imagePadding"
      and j: "length (st ! r) \<le> j" "j < 8" and k: "k < length (painted ?c)"
      and reach: "reaches_cell ra (painted ?c ! k) j" for j k
  proof (rule ccontr)
    assume "k \<noteq> 0"
    have "k = 2 * length ?imgs + 1 \<or> (\<exists>i < length ?imgs. k = 2 * i + 1) \<or>
          (\<exists>i < length ?imgs. k = 2 * i + 2)"
    proof (cases "even k")
      case True
      then obtain m where "k = 2 * m" by (auto elim: evenE)
      with \<open>k \<noteq> 0\<close> k have "m - 1 < length ?imgs" "k = 2 * (m - 1) + 2"
        unfolding album_canvas_size(3) by simp_all
      then show ?thesis by blast
    next
      case False
      then obtain m where m: "k = 2 * m + 1" by (auto elim: oddE)
      with k have "m \<le> length ?imgs" unfolding album_canvas_size(3) by simp
      with m show ?thesis by (cases "m = length ?imgs") auto
    qed
    then consider (footer) "k = 2 * length ?imgs + 1"
      | (image) i where "i < length ?imgs" "k = 2 * i + 1"
      | (caption) i where "i < length ?imgs" "k = 2 * i + 2"
      by blast
    then show False
    proof cases
      case footer
      from foot have "actualBoundingBoxAscent (measureText ra footer_state
          ''Generated with FaceFrame on Google AI Studio'') \<le> 70"
        by (simp add: footer_below_cells_def footer_text_def canvasHeight_def padding_def
            layout_values)
      from footer_below_grid[OF j(2) this] reach[unfolded footer album_canvas_last]
      show ?thesis by (rule notE)
    next
      case (image i)
      with j n have ij: "i \<noteq> j" by simp
      from cell_image_elsewhere[OF ij shadow]
        reach[unfolded image(2) album_canvas_cell(1)[OF image(1)]]
      show ?thesis by (rule notE)
    next
      case (caption i)
      with j n have ij: "i \<noteq> j" by simp
      from caption(1) n n' have i: "i < length ?es" by simp
      then have "?es ! i \<in> set (st ! r)"
        by (metis nth_mem set_sort_entries sortedImageEntries_def)
      with caps have "caption_within_cell ra (caption_text (fst (?es ! i)))" by blast
      then have fits: "caption_within_cell ra
          (style (?iws ! i) @ '' (v'' @ template_str (variation (?iws ! i)) @ '')'')"
        using i by (simp add: nth_imagesWithStyles caption_text_def)
      from cell_caption_elsewhere[OF ij fits]
        reach[unfolded caption(2) album_canvas_cell(2)[OF caption(1)]]
      show ?thesis by (rule notE)
    qed
  qed
  show ?thesis unfolding Let_def
  proof (intro conjI allI impI)
    show "fst (createAlbumPage h st r) = Inr (toDataURL h ?c ''image/jpeg'' 0.95)" by (rule res)
    show "width ?c = 3200" by (rule album_canvas_size(1))
    show "height ?c = 1800" by (rule album_canvas_size(2))
    show "painted ?c ! 0 = FillRect background_state 0 0 3200 1800" by (rule album_canvas_first)
    show "fillStyle background_state = ''#f4f4f5''" by (simp add: background_state_def)
  next
    fix j k
    assume h: "(\<forall>e \<in> set (st ! r). caption_within_cell ra (caption_text (fst e))) \<and>
             footer_below_cells ra \<and>
             shadowSpread ra (image_state background_state) \<le> imagePadding"
      and a: "length (st ! r) \<le> j \<and> j < 8 \<and> k < length (painted ?c) \<and>
               reaches_cell ra (painted ?c ! k) j"
    show "k = 0" by (rule blank[of j k]) (use h a in blast)+
  qed
qed

theorem fixed_size_jpeg_and_blank_cells_witness:
  "getContext2d demo_host \<and>
   length ([demo_mapping] ! 0) \<le> 8 \<and>
   footer_below_cells demo_rasteriser \<and>
   shadowSpread demo_rasteriser (image_state background_state) \<le> imagePadding \<and>
   fst (createAlbumPage demo_host [demo_mapping] 0) = Inr ''data:image/jpeg;8'' \<and>
   width (album_canvas (imagesWithStyles demo_host (sortedImageEntries demo_host demo_mapping))
              (loaded_images demo_host (sortedImageEntries demo_host demo_mapping))) = 3200 \<and>
   height (album_canvas (imagesWithStyles demo_host (sortedImageEntries demo_host demo_mapping))
              (loaded_images demo_host (sortedImageEntries demo_host demo_mapping))) = 1800 \<and>
   \<not> reaches_cell demo_rasteriser
       (painted (album_canvas (imagesWithStyles demo_host (sortedImageEntries demo_host demo_mapping))
              (loaded_images demo_host (sortedImageEntries demo_host demo_mapping))) ! 6) 3"
proof -
  let ?c = "album_canvas (imagesWithStyles demo_host (sortedImageEntries demo_host demo_mapping))
              (loaded_images demo_host (sortedImageEntries demo_host demo_mapping))"
  have g: "getContext2d demo_host" by (simp add: demo_host_def)
  have d: "\<forall>e \<in> set ([demo_mapping] ! 0). decodes demo_host (snd e) \<noteq> None"
    by (simp add: demo_mapping_def demo_host_def)
  have l: "length ([demo_mapping] ! 0) \<le> 8" by (simp add: demo_mapping_def)
  have caps: "\<forall>e \<in> set ([demo_mapping] ! 0). caption_within_cell demo_rasteriser (caption_text (fst e))"
    by (simp add: demo_mapping_def caption_within_cell_def caption_text_def demo_rasteriser_def
        caption_state_def image_state_def at_index_def template_str_def caption_offset_value
        layout_values Let_def)
  have foot: "footer_below_cells demo_rasteriser"
    by (simp add: footer_below_cells_def demo_rasteriser_def footer_state_def default_state_def
        canvasHeight_def padding_def layout_values Let_def)
  have shadow: "shadowSpread demo_rasteriser (image_state background_state) \<le> imagePadding"
    by (simp add: demo_rasteriser_def image_state_def imagePadding_def)
  have enc: "toDataURL demo_host ?c ''image/jpeg'' 0.95 = ''data:image/jpeg;8''"
    by (simp add: demo_host_def album_canvas_size loaded_images_def sortedImageEntries_def
        length_sort_entries demo_mapping_def string_of_nat.simps)
  have len: "length (painted ?c) = 8"
    by (simp add: album_canvas_size loaded_images_def sortedImageEntries_def length_sort_entries
        demo_mapping_def)
  note inst = fixed_size_jpeg_and_blank_cells[OF g d l, of demo_rasteriser, unfolded Let_def nth_Cons_0]
  note res = inst[THEN conjunct1]
  note w = inst[THEN conjunct2, THEN conjunct1]
  note ht = inst[THEN conjunct2, THEN conjunct2, THEN conjunct1]
  note imp = inst[THEN conjunct2, THEN conjunct2, THEN conjunct2, THEN conjunct2, THEN conjunct2]
  note blank = imp[THEN mp, OF conjI[OF caps[unfolded nth_Cons_0] conjI[OF foot shadow]], rule_format, of 3 6]
  have "\<not> reaches_cell demo_rasteriser (painted ?c ! 6) 3"
  proof
    assume "reaches_cell demo_rasteriser (painted ?c ! 6) 3"
    with len have "length demo_mapping \<le> 3 \<and> (3::nat) < 8 \<and> 6 < length (painted ?c) \<and>
        reaches_cell demo_rasteriser (painted ?c ! 6) 3"
      by (simp add: demo_mapping_def)
    from blank[OF this] show False by simp
  qed
  with g l foot shadow res[unfolded enc] w ht show ?thesis by blast
qed

section \<open>More than eight entries\<close>

text \<open>
  C10: for an input of more than 8 entries whose images all load (and a host that
  hands out the 2D context), the call still succeeds with the encoding of the 3200 by
  1800 canvas; an entry at sorted index 8 or more gets a row index of at least 2, so
  that its cell starts at or below the lower edge of the two-row grid region, and its
  image is drawn there all the same.
\<close>

theorem overflow_entries_drawn_below_grid:
  assumes "getContext2d h" and "\<forall>e \<in> set (st ! r). decodes h (snd e) \<noteq> None"
    and "8 < length (st ! r)" and "8 \<le> i" and "i < length (st ! r)"
  shows "let es = sortedImageEntries h (st ! r);
             c = album_canvas (imagesWithStyles h es) (loaded_images h es)
         in fst (createAlbumPage h st r) = Inr (toDataURL h c ''image/jpeg'' 0.95) \<and>
            width c = 3200 \<and> height c = 1800 \<and>
            2 \<le> row i \<and> padding + real grid_rows * cellHeight \<le> cellY i \<and>
            painted c ! (2 * i + 1) =
              DrawImage (image_state background_state) (the (decodes h (snd (es ! i))))
                (cellX i + imagePadding) (cellY i + 25) imageWidth imageHeight"
proof -
  let ?es = "sortedImageEntries h (st ! r)"
  let ?c = "album_canvas (imagesWithStyles h ?es) (loaded_images h ?es)"
  have i: "i < length ?es" using assms(5) by (simp add: sortedImageEntries_def length_sort_entries)
  then have il: "i < length (loaded_images h ?es)" by (simp add: loaded_images_def)
  have res: "fst (createAlbumPage h st r) = Inr (toDataURL h ?c ''image/jpeg'' 0.95)"
    using createAlbumPage_success[OF assms(1,2)] by (simp add: sortedImageEntries_def)
  from assms(4) have d: "2 \<le> i div 4" by simp
  then have rw: "2 \<le> row i" by (simp add: row_div)
  from d have "2 \<le> real (i div 4)" by (metis of_nat_le_iff of_nat_numeral)
  then have below: "padding + real grid_rows * cellHeight \<le> cellY i"
    by (simp add: cell_origin padding_def grid_rows_def layout_values)
  have img: "painted ?c ! (2 * i + 1) =
       DrawImage (image_state background_state) (the (decodes h (snd (?es ! i))))
                (cellX i + imagePadding) (cellY i + 25) imageWidth imageHeight"
    using album_canvas_cell(1)[OF il] i
    by (simp add: cell_image_def loaded_images_def image_origin imagePadding_def)
  show ?thesis unfolding Let_def
    using res rw below img album_canvas_size(1,2)[of "imagesWithStyles h ?es" "loaded_images h ?es"]
    by (intro conjI)
qed

theorem overflow_entries_drawn_below_grid_witness:
  "getContext2d demo_host \<and>
   8 < length ([demo_mapping9] ! 0) \<and>
   fst (createAlbumPage demo_host [demo_mapping9] 0) = Inr ''data:image/jpeg;20'' \<and>
   2 \<le> row 8 \<and> padding + real grid_rows * cellHeight \<le> cellY 8"
proof -
  have g: "getContext2d demo_host" by (simp add: demo_host_def)
  have d: "\<forall>e \<in> set ([demo_mapping9] ! 0). decodes demo_host (snd e) \<noteq> None"
    by (simp add: demo_mapping9_def demo_host_def)
  have l: "8 < length ([demo_mapping9] ! 0)" by (simp add: demo_mapping9_def)
  have enc: "toDataURL demo_host
       (album_canvas (imagesWithStyles demo_host (sortedImageEntries demo_host demo_mapping9))
              (loaded_images demo_host (sortedImageEntries demo_host demo_mapping9)))
       ''image/jpeg'' 0.95 = ''data:image/jpeg;20''"
    by (simp add: demo_host_def album_canvas_size loaded_images_def sortedImageEntries_def
        length_sort_entries demo_mapping9_def string_of_nat.simps)
  show ?thesis
    using g l overflow_entries_drawn_below_grid[OF g d l, of 8] enc
    by (simp add: Let_def)
qed

section \<open>A failed load\<close>

text \<open>
  C3: if the image of some entry of the input fails to load, the call yields no data
  URL; and once the 2D context has been obtained (loads are only issued after that)
  it is rejected with the error of a failed load that no other failed load precedes,
  the first failure observed.
\<close>

theorem failed_load_rejects_whole_call:
  assumes "e \<in> set (st ! r)" and "decodes h (snd e) = None"
  shows "(\<forall>d. fst (createAlbumPage h st r) \<noteq> Inr d) \<and>
         (getContext2d h \<longrightarrow>
            (\<exists>i < length (sortedImageEntries h (st ! r)).
               decodes h (snd (sortedImageEntries h (st ! r) ! i)) = None \<and>
               (\<forall>j < length (sortedImageEntries h (st ! r)).
                  decodes h (snd (sortedImageEntries h (st ! r) ! j)) = None \<longrightarrow>
                  settles_at h i \<le> settles_at h j) \<and>
               fst (createAlbumPage h st r) =
                 Inl (Error (load_error_message (snd (sortedImageEntries h (st ! r) ! i))))))"
proof (cases "getContext2d h")
  case False
  then show ?thesis by (simp add: createAlbumPage_no_context)
next
  case True
  let ?es = "sortedImageEntries h (st ! r)"
  let ?ps = "map imgPromise (imagesWithStyles h ?es)"
  have ps_nth: "?ps ! i = loadImage h i (snd (?es ! i))" if "i < length ?es" for i
    using that by (simp add: length_imagesWithStyles nth_imagesWithStyles)
  have len: "length ?ps = length ?es" by (simp add: length_imagesWithStyles)
  from assms(1) have "e \<in> set ?es" by (simp add: sortedImageEntries_def set_sort_entries)
  then obtain i0 where i0: "i0 < length ?es" "?es ! i0 = e" by (auto simp: in_set_conv_nth)
  with assms(2) have "?ps ! i0 = (settles_at h i0, Inl (Error (load_error_message (snd e))))"
    by (simp add: ps_nth loadImage_def)
  with i0 len have "(settles_at h i0, Inl (Error (load_error_message (snd e)))) \<in> set ?ps"
    by (metis nth_mem)
  from Promise_all_rejected[OF this] obtain t err where
    rej: "Promise_all ?ps = Inl err" and mem: "(t, Inl err) \<in> set ?ps"
    and least: "\<And>t' e'. (t', Inl e') \<in> set ?ps \<Longrightarrow> t \<le> t'" by blast
  from mem len obtain i where i: "i < length ?es" "?ps ! i = (t, Inl err)"
    by (metis in_set_conv_nth)
  with ps_nth[OF i(1)] have li: "loadImage h i (snd (?es ! i)) = (t, Inl err)" by simp
  then have fail: "decodes h (snd (?es ! i)) = None" and t: "t = settles_at h i"
    and err: "err = Error (load_error_message (snd (?es ! i)))"
    by (auto simp: loadImage_def split: option.splits)
  have first: "settles_at h i \<le> settles_at h j"
    if j: "j < length ?es" "decodes h (snd (?es ! j)) = None" for j
  proof -
    from j have "?ps ! j = (settles_at h j, Inl (Error (load_error_message (snd (?es ! j)))))"
      by (simp add: ps_nth loadImage_def)
    with j(1) len have "(settles_at h j, Inl (Error (load_error_message (snd (?es ! j))))) \<in> set ?ps"
      by (metis nth_mem)
    from least[OF this] t show ?thesis by simp
  qed
  have res: "fst (createAlbumPage h st r) = Inl err"
    using rej by (simp add: createAlbumPage_result[OF True] sortedImageEntries_def)
  show ?thesis using True i(1) fail first res err by auto
qed

lemma demo_failing_sorted:
  "sortedImageEntries demo_host demo_failing =
     [(''A_1'', ''bad1''), (''B_1'', ''data:b''), (''C_1'', ''bad2'')]"
  by (simp add: sortedImageEntries_def demo_failing_def demo_host_def sort_entries_def
      rootCollationCompare_def primary_weight_def case_weight_def)

theorem failed_load_rejects_whole_call_witness:
  "(''A_1'', ''bad1'') \<in> set ([demo_failing] ! 0) \<and> decodes demo_host (snd (''A_1'', ''bad1'')) = None \<and>
   fst (createAlbumPage demo_host [demo_failing] 0) = Inl (Error ''Failed to load image: bad2...'')"
proof -
  have m: "(''A_1'', ''bad1'') \<in> set ([demo_failing] ! 0)" by (simp add: demo_failing_def)
  have f: "decodes demo_host (snd (''A_1'', ''bad1'')) = None" by (simp add: demo_host_def)
  have g: "getContext2d demo_host" by (simp add: demo_host_def)
  let ?es = "sortedImageEntries demo_host ([demo_failing] ! 0)"
  have es: "?es = [(''A_1'', ''bad1''), (''B_1'', ''data:b''), (''C_1'', ''bad2'')]"
    by (simp add: demo_failing_sorted)
  from failed_load_rejects_whole_call[OF m f] g obtain i where
    i0: "i < length ?es" and fail0: "decodes demo_host (snd (?es ! i)) = None"
    and first0: "\<forall>j < length ?es. decodes demo_host (snd (?es ! j)) = None \<longrightarrow>
                  settles_at demo_host i \<le> settles_at demo_host j"
    and res0: "fst (createAlbumPage demo_host [demo_failing] 0) =
                 Inl (Error (load_error_message (snd (?es ! i))))"
    by blast
  from i0 have i: "i < 3" unfolding es by simp
  note fail = fail0[unfolded es] and first = first0[unfolded es] and res = res0[unfolded es]
  from i consider "i = 0" | "i = 1" | "i = 2" by linarith
  then have "i = 2"
  proof cases
    case 1
    with first[rule_format, of 2] show ?thesis by (simp add: demo_host_def)
  next
    case 2
    with fail show ?thesis by (simp add: demo_host_def)
  next
    case 3
    then show ?thesis .
  qed
  with res have "fst (createAlbumPage demo_host [demo_failing] 0) = Inl (Error ''Failed to load image: bad2...'')"
    by (simp add: load_error_message_def)
  with m f show ?thesis by blast
qed

section \<open>The input object\<close>

text \<open>
  C9: the call leaves the input mapping as it was, whether it succeeds or fails: the
  object behind the reference \<open>imageData\<close> has the same entries in the same order
  after the call, and so has every object that existed before it (the array that
  \<open>sort\<close> writes to is the one that \<open>Object.entries\<close> has just allocated).
\<close>

theorem input_mapping_unchanged:
  assumes "r < length st"
  shows "snd (createAlbumPage h st r) ! r = st ! r \<and>
         take (length st) (snd (createAlbumPage h st r)) = st"
proof (cases "getContext2d h")
  case True
  with assms show ?thesis by (simp add: createAlbumPage_store nth_append)
next
  case False
  then show ?thesis by (simp add: createAlbumPage_no_context)
qed

theorem input_mapping_unchanged_witness:
  "(0::nat) < length [demo_mapping] \<and>
   snd (createAlbumPage demo_host [demo_mapping] 0) ! 0 = demo_mapping \<and>
   take 1 (snd (createAlbumPage demo_host [demo_mapping] 0)) = [demo_mapping]"
proof -
  have l: "(0::nat) < length [demo_mapping]" by simp
  show ?thesis using l input_mapping_unchanged[OF l, of demo_host] by simp
qed

section \<open>Determinism\<close>

lemma createAlbumPage_failure:
  assumes "getContext2d h" and "e \<in> set (st ! r)" and "decodes h (snd e) = None"
  shows "\<exists>err. fst (createAlbumPage h st r) = Inl err"
proof -
  let ?es = "sort_entries (localeCompare h) (st ! r)"
  let ?ps = "map imgPromise (imagesWithStyles h ?es)"
  from assms(2) have "e \<in> set ?es" by (simp add: set_sort_entries)
  then obtain i where i: "i < length ?es" "?es ! i = e" by (auto simp: in_set_conv_nth)
  with assms(3) have "?ps ! i = (settles_at h i, Inl (Error (load_error_message (snd e))))"
    by (simp add: length_imagesWithStyles nth_imagesWithStyles loadImage_def)
  moreover have "i < length ?ps" using i by (simp add: length_imagesWithStyles)
  ultimately have "(settles_at h i, Inl (Error (load_error_message (snd e)))) \<in> set ?ps"
    by (metis nth_mem)
  from Promise_all_rejected[OF this] obtain err where "Promise_all ?ps = Inl err" by blast
  then show ?thesis by (simp add: createAlbumPage_result[OF assms(1)])
qed

lemma album_canvas_timing:
  assumes "length imgs = length es"
  shows "album_canvas (imagesWithStyles h1 es) imgs = album_canvas (imagesWithStyles h2 es) imgs"
proof -
  have eq: "map (\<lambda>p. [cell_image background_state (snd p) (fst p),
                   cell_caption background_state (imagesWithStyles h1 es ! fst p) (fst p)])
          (enumerate 0 imgs) =
        map (\<lambda>p. [cell_image background_state (snd p) (fst p),
                   cell_caption background_state (imagesWithStyles h2 es ! fst p) (fst p)])
          (enumerate 0 imgs)"
  proof (rule map_cong[OF refl])
    fix p assume "p \<in> set (enumerate 0 imgs)"
    then have "fst p < length es" using assms by (auto simp: in_set_enumerate_eq)
    then show "[cell_image background_state (snd p) (fst p),
                   cell_caption background_state (imagesWithStyles h1 es ! fst p) (fst p)] =
               [cell_image background_state (snd p) (fst p),
                   cell_caption background_state (imagesWithStyles h2 es ! fst p) (fst p)]"
      by (simp add: cell_caption_def nth_imagesWithStyles)
  qed
  show ?thesis unfolding album_canvas_eq eq by (rule refl)
qed

text \<open>
  C6: two invocations with the same input and the same decode results produce the
  same output data URL (or none, both).  The second invocation runs on the store that
  the first one left, and on a host that agrees with the first on collation, context,
  decoding and encoder but may settle the loads at other ticks; with the very same
  host the whole outcome, error included, is the same.
\<close>

theorem createAlbumPage_deterministic:
  assumes "r < length st"
    and "localeCompare h2 = localeCompare h1" and "getContext2d h2 = getContext2d h1"
    and "decodes h2 = decodes h1" and "toDataURL h2 = toDataURL h1"
  shows "data_url (fst (createAlbumPage h2 (snd (createAlbumPage h1 st r)) r)) =
           data_url (fst (createAlbumPage h1 st r)) \<and>
         fst (createAlbumPage h1 (snd (createAlbumPage h1 st r)) r) = fst (createAlbumPage h1 st r)"
proof (cases "getContext2d h1")
  case False
  with assms(3) show ?thesis by (simp add: createAlbumPage_no_context)
next
  case True
  with assms(3) have g2: "getContext2d h2" by simp
  let ?st' = "snd (createAlbumPage h1 st r)"
  have same: "?st' ! r = st ! r" using assms(1) True by (simp add: createAlbumPage_store nth_append)
  have again: "fst (createAlbumPage h1 ?st' r) = fst (createAlbumPage h1 st r)"
    by (simp add: createAlbumPage_result[OF True] same)
  have "data_url (fst (createAlbumPage h2 ?st' r)) = data_url (fst (createAlbumPage h1 st r))"
  proof (cases "\<forall>e \<in> set (st ! r). decodes h1 (snd e) \<noteq> None")
    case all: True
    let ?es = "sort_entries (localeCompare h1) (st ! r)"
    have "length (loaded_images h1 ?es) = length ?es" by (simp add: loaded_images_def)
    from album_canvas_timing[OF this, of h2 h1]
    have "album_canvas (imagesWithStyles h2 ?es) (loaded_images h1 ?es) =
          album_canvas (imagesWithStyles h1 ?es) (loaded_images h1 ?es)" .
    moreover have "loaded_images h2 ?es = loaded_images h1 ?es"
      by (simp add: loaded_images_def assms(4))
    moreover from all same assms(4) have "\<forall>e \<in> set (?st' ! r). decodes h2 (snd e) \<noteq> None" by simp
    ultimately show ?thesis
      using createAlbumPage_success[OF g2, of ?st' r] createAlbumPage_success[OF True all]
      by (simp add: same assms(2,5))
  next
    case False
    then obtain e where e: "e \<in> set (st ! r)" "decodes h1 (snd e) = None" by auto
    from createAlbumPage_failure[OF True e] obtain err1
      where "fst (createAlbumPage h1 st r) = Inl err1" by blast
    moreover from e same assms(4) have "e \<in> set (?st' ! r)" "decodes h2 (snd e) = None" by simp_all
    from createAlbumPage_failure[OF g2 this] obtain err2
      where "fst (createAlbumPage h2 ?st' r) = Inl err2" by blast
    ultimately show ?thesis by (simp add: data_url_def)
  qed
  with again show ?thesis by simp
qed

theorem createAlbumPage_deterministic_witness:
  "(0::nat) < length [demo_mapping] \<and>
   localeCompare (demo_host\<lparr>settles_at := (\<lambda>i. i)\<rparr>) = localeCompare demo_host \<and>
   getContext2d (demo_host\<lparr>settles_at := (\<lambda>i. i)\<rparr>) = getContext2d demo_host \<and>
   decodes (demo_host\<lparr>settles_at := (\<lambda>i. i)\<rparr>) = decodes demo_host \<and>
   toDataURL (demo_host\<lparr>settles_at := (\<lambda>i. i)\<rparr>) = toDataURL demo_host \<and>
   data_url (fst (createAlbumPage (demo_host\<lparr>settles_at := (\<lambda>i. i)\<rparr>)
                     (snd (createAlbumPage demo_host [demo_mapping] 0)) 0)) =
     data_url (fst (createAlbumPage demo_host [demo_mapping] 0))"
proof -
  have l: "(0::nat) < length [demo_mapping]" by simp
  have a: "localeCompare (demo_host\<lparr>settles_at := (\<lambda>i. i)\<rparr>) = localeCompare demo_host" by simp
  have b: "getContext2d (demo_host\<lparr>settles_at := (\<lambda>i. i)\<rparr>) = getContext2d demo_host" by simp
  have c: "decodes (demo_host\<lparr>settles_at := (\<lambda>i. i)\<rparr>) = decodes demo_host" by simp
  have d: "toDataURL (demo_host\<lparr>settles_at := (\<lambda>i. i)\<rparr>) = toDataURL demo_host" by simp
  from createAlbumPage_deterministic[OF l a b c d] l a b c d show ?thesis by blast
qed

section \<open>The download-all handler\<close>

lemma length_assign_property: "length (assign_property acc key v) \<le> Suc (length acc)"
  by (simp add: assign_property_def)

lemma length_foldl_assign:
  "length (foldl (\<lambda>acc (key, slot). assign_property acc key (f slot)) acc xs) \<le> length acc + length xs"
proof (induction xs arbitrary: acc)
  case Nil
  then show ?case by simp
next
  case (Cons x xs)
  obtain key slot where x: "x = (key, slot)" by (cases x)
  from Cons.IH[of "assign_property acc key (f slot)"] length_assign_property[of acc key "f slot"]
  show ?case by (simp add: x)
qed

lemma filter_keyed_slots:
  "length (filter (\<lambda>(key, slot). slot_ready slot) (keyed_slots g)) =
   length (filter slot_ready (concat (map snd g)))"
proof -
  have one: "map snd (map (\<lambda>(index, slot). (style @ ''_'' @ string_of_nat (index + 1), slot))
                        (enumerate 0 images)) = images" for style :: string and images
    by (simp add: split_def comp_def map_snd_enumerate)
  have ks: "map snd (keyed_slots g) = concat (map snd g)"
    unfolding keyed_slots_def by (induction g) (auto simp: one split_def comp_def map_snd_enumerate)
  have "length (filter (\<lambda>(key, slot). slot_ready slot) xs) =
        length (filter slot_ready (map snd xs))" for xs :: "(string \<times> GeneratedImage) list"
    by (induction xs) auto
  from this[of "keyed_slots g"] show ?thesis unfolding ks .
qed

lemma collect_imageData_bound:
  "length (collect_imageData g) \<le> length (filter slot_ready (concat (map snd g)))"
  unfolding collect_imageData_def
  using length_foldl_assign[of "\<lambda>slot. the (url slot)" "[]"
      "filter (\<lambda>(key, slot). slot_ready slot) (keyed_slots g)"]
  by (simp add: filter_keyed_slots)

lemma demo_generated_collected:
  "collect_imageData demo_generated = [(''Instagram_1'', ''data:i1''), (''LinkedIn_2'', ''data:l2'')]"
  by (simp add: collect_imageData_def keyed_slots_def demo_generated_def slot_ready_def
      assign_property_def string_of_nat.simps enumerate_eq_zip upt_rec)

text \<open>
  C7: in every state in which fewer than 8 slots have status \<open>done\<close> and a non-empty
  URL, \<open>handleDownloadAll\<close> sets the downloading flag, shows the not-ready notice,
  clears the flag and does nothing else; \<open>createAlbumPage\<close> is not called.
\<close>

theorem download_all_refuses_incomplete:
  assumes "length (filter slot_ready (concat (map snd g))) < 8"
  shows "handleDownloadAll h g =
           [SetIsDownloading True,
            Alert ''Please wait for all images to finish generating before downloading.'',
            SetIsDownloading False] \<and>
         (\<forall>m. Call_createAlbumPage m \<notin> set (handleDownloadAll h g))"
proof -
  from assms collect_imageData_bound[of g] have "length (collect_imageData g) < length STYLES * 2"
    by (simp add: STYLES_def)
  then have "handleDownloadAll h g =
           [SetIsDownloading True,
            Alert ''Please wait for all images to finish generating before downloading.'',
            SetIsDownloading False]"
    by (simp add: handleDownloadAll_def Let_def)
  then show ?thesis by simp
qed

theorem download_all_refuses_incomplete_witness:
  "length (filter slot_ready (concat (map snd demo_generated))) < 8 \<and>
   handleDownloadAll demo_host demo_generated =
     [SetIsDownloading True,
      Alert ''Please wait for all images to finish generating before downloading.'',
      SetIsDownloading False]"
proof -
  have c: "length (filter slot_ready (concat (map snd demo_generated))) < 8"
    by (simp add: demo_generated_def slot_ready_def)
  from download_all_refuses_incomplete[OF c, of demo_host] c show ?thesis by blast
qed

end
